theory Spec2Isabelle
  imports Complex_Main
begin

section \<open>Early stopping (optimization\_old.py, class EarlyStopping)\<close>

text \<open>
  The monitor object of the training loop. Losses are Python floats; they are modelled
  as exact reals, the attribute \<open>best_loss\<close> is \<open>None\<close> until the first call.
  \<^verbatim>\<open>
  class EarlyStopping:
      def __init__(self, patience=5, delta=0):
          self.patience = patience
          self.delta = delta
          self.best_loss = None
          self.counter = 0
          self.early_stop = False
  \<close>
\<close>

record EarlyStopping =
  patience :: int
  delta :: real
  best_loss :: "real option"
  counter :: int
  early_stop :: bool

definition EarlyStopping_init :: "int \<Rightarrow> real \<Rightarrow> EarlyStopping" where
  "EarlyStopping_init p d =
     \<lparr>patience = p, delta = d, best_loss = None, counter = 0, early_stop = False\<rparr>"

text \<open>
  \<^verbatim>\<open>
      def __call__(self, val_loss):
          if self.best_loss is None:
              self.best_loss = val_loss
          elif val_loss > self.best_loss - self.delta:
              self.counter += 1
              if self.counter >= self.patience:
                  self.early_stop = True
          else:
              self.best_loss = val_loss
              self.counter = 0
  \<close>
  The method mutates the object and returns nothing; the model returns the object after
  the call. No branch raises. The difference is exact here, which is what the program
  computes when \<open>delta = 0\<close>; \<open>EarlyStopping_call_fp\<close> below rounds it.
\<close>

definition EarlyStopping_call :: "EarlyStopping \<Rightarrow> real \<Rightarrow> EarlyStopping" where
  "EarlyStopping_call s val_loss =
     (case best_loss s of
        None \<Rightarrow> s\<lparr>best_loss := Some val_loss\<rparr>
      | Some b \<Rightarrow>
          if val_loss > b - delta s then
            (let s1 = s\<lparr>counter := counter s + 1\<rparr>
             in if counter s1 \<ge> patience s1 then s1\<lparr>early_stop := True\<rparr> else s1)
          else s\<lparr>best_loss := Some val_loss, counter := 0\<rparr>)"

text \<open>The monitor after a sequence of calls, one per epoch, oldest loss first.\<close>

definition EarlyStopping_calls :: "EarlyStopping \<Rightarrow> real list \<Rightarrow> EarlyStopping" where
  "EarlyStopping_calls s vs = foldl EarlyStopping_call s vs"

text \<open>A monitor as the program can hold it: constructed, then called any number of times.\<close>

definition monitor_after :: "int \<Rightarrow> real \<Rightarrow> real list \<Rightarrow> EarlyStopping" where
  "monitor_after p d vs = EarlyStopping_calls (EarlyStopping_init p d) vs"

subsection \<open>Double precision\<close>

text \<open>
  The losses and rates of the program are IEEE doubles, and each arithmetic operation
  returns the exact result rounded to a double. In the definitions named \<open>_fp\<close> the
  rounding is a parameter \<open>rnd\<close>, applied after every operation that can be inexact;
  what is proved of them holds for every rounding, or for every monotone rounding that
  leaves 0, 1 and 2 unchanged, as rounding to the nearest double does. The definitions
  without the suffix compute exactly; they are the instance \<open>rnd = (\<lambda>x. x)\<close> and
  agree with the program wherever the exact results are doubles, as with \<open>delta = 0\<close>.

  Two roundings to compute with: \<open>round_to_grid k\<close> rounds to the nearest multiple of
  \<open>2^-k\<close>, a tie going to the even multiple, and \<open>round_double\<close> uses the spacing
  of the doubles, \<open>2^-54\<close> below 1/2, \<open>2^-53\<close> from 1/2 to 1 and \<open>2^-52\<close> from
  1 on, so that it is the rounding to the nearest double for magnitudes from 1/4 up to 2.
\<close>

definition round_half_even :: "real \<Rightarrow> int" where
  "round_half_even x =
     (let f = \<lfloor>x\<rfloor>; r = x - real_of_int f
      in if r < 1/2 then f else if r > 1/2 then f + 1 else if even f then f else f + 1)"

definition round_to_grid :: "nat \<Rightarrow> real \<Rightarrow> real" where
  "round_to_grid k x = real_of_int (round_half_even (x * 2 ^ k)) / 2 ^ k"

definition round_double :: "real \<Rightarrow> real" where
  "round_double x =
     (if \<bar>x\<bar> < 1/2 then round_to_grid 54 x
      else if \<bar>x\<bar> < 1 then round_to_grid 53 x
      else round_to_grid 52 x)"

text \<open>
  \<open>__call__\<close> with the difference \<open>self.best_loss - self.delta\<close> rounded as the
  machine rounds it.
\<close>

definition EarlyStopping_call_fp ::
  "(real \<Rightarrow> real) \<Rightarrow> EarlyStopping \<Rightarrow> real \<Rightarrow> EarlyStopping" where
  "EarlyStopping_call_fp rnd s val_loss =
     (case best_loss s of
        None \<Rightarrow> s\<lparr>best_loss := Some val_loss\<rparr>
      | Some b \<Rightarrow>
          if val_loss > rnd (b - delta s) then
            (let s1 = s\<lparr>counter := counter s + 1\<rparr>
             in if counter s1 \<ge> patience s1 then s1\<lparr>early_stop := True\<rparr> else s1)
          else s\<lparr>best_loss := Some val_loss, counter := 0\<rparr>)"

definition monitor_after_fp ::
  "(real \<Rightarrow> real) \<Rightarrow> int \<Rightarrow> real \<Rightarrow> real list \<Rightarrow> EarlyStopping" where
  "monitor_after_fp rnd p d vs = foldl (EarlyStopping_call_fp rnd) (EarlyStopping_init p d) vs"

section \<open>Best-model tracking (optimization\_old.py, save\_best\_model\_callback)\<close>

text \<open>
  Python exceptions that the modelled code can raise. The three \<open>ValueError\<close>s are
  told apart by the place that raises them.
\<close>

datatype error =
    KeyError
  | ValueError_inconsistent_samples
  | ValueError_pos_label
  | ValueError_all_nan

text \<open>
  What the callback reads of a finished trial: its number and two entries of the
  dictionary \<open>trial.user_attrs\<close>. The objective always stores \<open>"best_val_loss"\<close>; it
  stores \<open>"best_model_path"\<close> only in an epoch whose loss is below the trial's best so
  far, so that key can be absent (\<open>None\<close> here).
\<close>

record trial =
  number :: nat
  attr_best_val_loss :: real
  attr_best_model_path :: "string option"

text \<open>
  The module globals the callback writes, and the study attribute it sets.
  \<^verbatim>\<open>
  if __name__ == "__main__":
      best_model = None
      best_model_path = None
      best_validation_loss = 1000000
  \<close>
\<close>

record globals =
  best_model_path :: "string option"
  best_validation_loss :: real
  study_best_model_path :: "string option"

definition main_globals :: globals where
  "main_globals =
     \<lparr>best_model_path = None, best_validation_loss = 1000000, study_best_model_path = None\<rparr>"

text \<open>
  \<^verbatim>\<open>
  def save_best_model_callback(study, trial):
      global best_model_path, best_validation_loss
      this_trial_loss = trial.user_attrs["best_val_loss"]
      this_trial_model_path = trial.user_attrs["best_model_path"]

      if this_trial_loss < best_validation_loss:
          best_validation_loss = this_trial_loss
          best_model_path = this_trial_model_path
          study.set_user_attr("best_model_path", this_trial_model_path)
          print(...)
  \<close>
  The dictionary lookup of an absent key raises \<open>KeyError\<close>. The printed line is not
  modelled.
\<close>

definition save_best_model_callback :: "globals \<Rightarrow> trial \<Rightarrow> error + globals" where
  "save_best_model_callback g t =
     (let this_trial_loss = attr_best_val_loss t in
      case attr_best_model_path t of
        None \<Rightarrow> Inl KeyError
      | Some this_trial_model_path \<Rightarrow>
          if this_trial_loss < best_validation_loss g then
            Inr (g\<lparr>best_validation_loss := this_trial_loss,
                   best_model_path := Some this_trial_model_path,
                   study_best_model_path := Some this_trial_model_path\<rparr>)
          else Inr g)"

text \<open>
  \<open>study.optimize\<close> calls the callback once after each trial, in order; an exception
  of the callback ends the run.
\<close>

fun run_callbacks :: "globals \<Rightarrow> trial list \<Rightarrow> error + globals" where
  "run_callbacks g [] = Inr g"
| "run_callbacks g (t # ts) =
     (case save_best_model_callback g t of
        Inl e \<Rightarrow> Inl e
      | Inr g' \<Rightarrow> run_callbacks g' ts)"

text \<open>
  The state after the callbacks of \<open>ts\<close>, started from the globals of the main block:
  the recorded loss is a lower bound of 1000000 and of every trial's loss; it is either
  still 1000000 with no path recorded, or it is the loss of the first trial that reaches
  it, whose path is recorded in both places.
\<close>

definition points_to_first_lowest :: "trial list \<Rightarrow> globals \<Rightarrow> nat \<Rightarrow> bool" where
  "points_to_first_lowest ts g i \<longleftrightarrow>
     i < length ts
     \<and> attr_best_val_loss (ts ! i) = best_validation_loss g
     \<and> best_model_path g = attr_best_model_path (ts ! i)
     \<and> best_model_path g \<noteq> None
     \<and> (\<forall>j < i. best_validation_loss g < attr_best_val_loss (ts ! j))"

definition tracks_best :: "trial list \<Rightarrow> globals \<Rightarrow> bool" where
  "tracks_best ts g \<longleftrightarrow>
     best_validation_loss g \<le> 1000000
     \<and> (\<forall>t \<in> set ts. best_validation_loss g \<le> attr_best_val_loss t)
     \<and> study_best_model_path g = best_model_path g
     \<and> ((best_validation_loss g = 1000000 \<and> best_model_path g = None)
        \<or> (best_validation_loss g < 1000000 \<and> (\<exists>i. points_to_first_lowest ts g i)))"

text \<open>The scenario of four trials with losses 0.5, 0.3, 0.4, 0.2, each with a saved model.\<close>

definition scenario_trials :: "trial list" where
  "scenario_trials =
     [\<lparr>number = 0, attr_best_val_loss = 5/10, attr_best_model_path = Some ''tmp_model_trial_0.pth''\<rparr>,
      \<lparr>number = 1, attr_best_val_loss = 3/10, attr_best_model_path = Some ''tmp_model_trial_1.pth''\<rparr>,
      \<lparr>number = 2, attr_best_val_loss = 4/10, attr_best_model_path = Some ''tmp_model_trial_2.pth''\<rparr>,
      \<lparr>number = 3, attr_best_val_loss = 2/10, attr_best_model_path = Some ''tmp_model_trial_3.pth''\<rparr>]"

section \<open>Metrics (data\_methods.py)\<close>

text \<open>
  Labels are the two classes (\<open>True\<close> is class 1), scores are reals. A Python float
  that may be NaN is a \<open>real option\<close> with \<open>None\<close> for NaN; arithmetic with NaN gives
  NaN.
\<close>

type_synonym pyfloat = "real option"

definition py_sub :: "pyfloat \<Rightarrow> pyfloat \<Rightarrow> pyfloat" where
  "py_sub a b = (case a of None \<Rightarrow> None | Some x \<Rightarrow> (case b of None \<Rightarrow> None | Some y \<Rightarrow> Some (x - y)))"

definition py_add :: "pyfloat \<Rightarrow> pyfloat \<Rightarrow> pyfloat" where
  "py_add a b = (case a of None \<Rightarrow> None | Some x \<Rightarrow> (case b of None \<Rightarrow> None | Some y \<Rightarrow> Some (x + y)))"

definition py_abs :: "pyfloat \<Rightarrow> pyfloat" where
  "py_abs a = map_option abs a"

definition py_half :: "pyfloat \<Rightarrow> pyfloat" where
  "py_half a = map_option (\<lambda>x. x / 2) a"

subsection \<open>Library routines the source calls\<close>

text \<open>
  The source computes none of the metrics itself: it calls scikit-learn and NumPy, which
  are not part of the repository. The definitions of this subsection model those
  routines, with the arguments the source passes, after the libraries' documented
  behaviour; what is proved about \<open>calculate_metrics\<close> and \<open>calculate_eer\<close>
  is relative to them.

  \<open>sklearn.metrics.accuracy_score\<close> with its defaults: the inputs must have the same
  number of samples (\<open>ValueError\<close> otherwise); the result is the fraction of positions
  where label and prediction agree, the mean of an empty array being NaN.
\<close>

definition accuracy_score :: "bool list \<Rightarrow> bool list \<Rightarrow> error + pyfloat" where
  "accuracy_score y_true y_pred =
     (if length y_true \<noteq> length y_pred then Inl ValueError_inconsistent_samples
      else if y_true = [] then Inr None
      else Inr (Some (real (length (filter (\<lambda>(t, p). t = p) (zip y_true y_pred)))
                       / real (length y_true))))"

text \<open>
  \<open>recall_score\<close> and \<open>f1_score\<close> with their defaults (positive class 1,
  \<open>zero_division="warn"\<close>): a zero denominator gives 0 with a warning.
\<close>

definition count_pairs :: "bool \<Rightarrow> bool \<Rightarrow> bool list \<Rightarrow> bool list \<Rightarrow> nat" where
  "count_pairs t p y_true y_pred = length (filter (\<lambda>x. x = (t, p)) (zip y_true y_pred))"

definition recall_score :: "bool list \<Rightarrow> bool list \<Rightarrow> error + pyfloat" where
  "recall_score y_true y_pred =
     (if length y_true \<noteq> length y_pred then Inl ValueError_inconsistent_samples
      else let tp = count_pairs True True y_true y_pred;
               fn = count_pairs True False y_true y_pred
           in if tp + fn = 0 then Inr (Some 0) else Inr (Some (real tp / real (tp + fn))))"

definition f1_score :: "bool list \<Rightarrow> bool list \<Rightarrow> error + pyfloat" where
  "f1_score y_true y_pred =
     (if length y_true \<noteq> length y_pred then Inl ValueError_inconsistent_samples
      else let tp = count_pairs True True y_true y_pred;
               fn = count_pairs True False y_true y_pred;
               fp = count_pairs False True y_true y_pred
           in if 2 * tp + fp + fn = 0 then Inr (Some 0)
              else Inr (Some (real (2 * tp) / real (2 * tp + fp + fn))))"

text \<open>
  \<^verbatim>\<open>
  def calculate_metrics(y_true, y_pred):
      y_pred_labels = (y_pred > 0.5).astype(int)
      acc = accuracy_score(y_true, y_pred_labels)
      recall = recall_score(y_true, y_pred_labels)
      f1 = f1_score(y_true, y_pred_labels)
      return acc, recall, f1
  \<close>
\<close>

definition calculate_metrics :: "bool list \<Rightarrow> real list \<Rightarrow> error + (pyfloat \<times> pyfloat \<times> pyfloat)" where
  "calculate_metrics y_true y_pred =
     (let y_pred_labels = map (\<lambda>p. p > 1/2) y_pred in
      case accuracy_score y_true y_pred_labels of
        Inl e \<Rightarrow> Inl e
      | Inr acc \<Rightarrow>
          (case recall_score y_true y_pred_labels of
             Inl e \<Rightarrow> Inl e
           | Inr recall \<Rightarrow>
               (case f1_score y_true y_pred_labels of
                  Inl e \<Rightarrow> Inl e
                | Inr f1 \<Rightarrow> Inr (acc, recall, f1))))"

text \<open>
  \<open>sklearn.metrics.roc_curve\<close> with its defaults (\<open>pos_label=None\<close>,
  \<open>drop_intermediate=True\<close>), in the steps of the library routine: the samples are
  put in decreasing score order (a stable ascending sort, reversed); one operating point
  is kept per distinct score, at the last index of its run, with the cumulative counts of
  true positives \<open>tps\<close> and false positives \<open>fps\<close> up to there; an empty input
  has no classes and \<open>pos_label\<close> cannot be chosen (\<open>ValueError\<close>). With more than
  two points, \<open>roc_curve\<close> keeps the first, the last, and every point where the second
  difference of \<open>fps\<close> or \<open>tps\<close> is not zero; it then puts the point (0, 0) in
  front, with threshold infinity, and divides by the last count; when that count is not
  positive (a class is absent) it warns and returns an array of NaN instead.
\<close>

fun cumsum_from :: "int \<Rightarrow> int list \<Rightarrow> int list" where
  "cumsum_from a [] = []"
| "cumsum_from a (x # xs) = (a + x) # cumsum_from (a + x) xs"

definition stable_cumsum :: "int list \<Rightarrow> int list" where
  "stable_cumsum xs = cumsum_from 0 xs"

definition np_diff :: "int list \<Rightarrow> int list" where
  "np_diff xs = map (\<lambda>(a, b). b - a) (zip xs (tl xs))"

definition binary_clf_curve ::
  "bool list \<Rightarrow> real list \<Rightarrow> error + (int list \<times> int list \<times> real list)" where
  "binary_clf_curve y_true y_score =
     (if length y_true \<noteq> length y_score then Inl ValueError_inconsistent_samples
      else if y_true = [] then Inl ValueError_pos_label
      else
        let desc = rev (sort_key snd (zip y_true y_score));
            y_score' = map snd desc;
            y_true' = map fst desc;
            distinct_value_indices =
              filter (\<lambda>i. y_score' ! Suc i - y_score' ! i \<noteq> 0) [0 ..< length y_score' - 1];
            threshold_idxs = distinct_value_indices @ [length y_true' - 1];
            cs = stable_cumsum (map (\<lambda>t. if t then 1 else 0) y_true');
            tps = map (\<lambda>i. cs ! i) threshold_idxs;
            fps = map (\<lambda>i. 1 + int i - cs ! i) threshold_idxs
        in Inr (fps, tps, map (\<lambda>i. y_score' ! i) threshold_idxs))"

datatype threshold = PosInf | Finite real

definition optimal_idxs :: "int list \<Rightarrow> int list \<Rightarrow> nat list" where
  "optimal_idxs fps tps =
     (let mask = True # map (\<lambda>(a, b). a \<noteq> 0 \<or> b \<noteq> 0)
                          (zip (np_diff (np_diff fps)) (np_diff (np_diff tps))) @ [True]
      in filter (\<lambda>i. mask ! i) [0 ..< length mask])"

definition rates :: "int list \<Rightarrow> pyfloat list" where
  "rates ps =
     (if last ps \<le> 0 then replicate (length ps) None
      else map (\<lambda>p. Some (real_of_int p / real_of_int (last ps))) ps)"

definition roc_curve ::
  "bool list \<Rightarrow> real list \<Rightarrow> error + (pyfloat list \<times> pyfloat list \<times> threshold list)" where
  "roc_curve y_true y_score =
     (case binary_clf_curve y_true y_score of
        Inl e \<Rightarrow> Inl e
      | Inr (fps, tps, thresholds) \<Rightarrow>
          let keep = (if length fps > 2 then optimal_idxs fps tps else [0 ..< length fps]);
              fps1 = 0 # map (\<lambda>i. fps ! i) keep;
              tps1 = 0 # map (\<lambda>i. tps ! i) keep;
              thresholds1 = PosInf # map (\<lambda>i. Finite (thresholds ! i)) keep
          in Inr (rates fps1, rates tps1, thresholds1))"

text \<open>
  \<open>numpy.nanargmin\<close>: the index of the first smallest entry that is not NaN;
  \<open>ValueError\<close> when every entry is NaN.
\<close>

fun nanargmin_from :: "nat \<Rightarrow> (nat \<times> real) option \<Rightarrow> pyfloat list \<Rightarrow> (nat \<times> real) option" where
  "nanargmin_from i best [] = best"
| "nanargmin_from i best (None # xs) = nanargmin_from (Suc i) best xs"
| "nanargmin_from i None (Some x # xs) = nanargmin_from (Suc i) (Some (i, x)) xs"
| "nanargmin_from i (Some (j, m)) (Some x # xs) =
     nanargmin_from (Suc i) (if x < m then Some (i, x) else Some (j, m)) xs"

definition nanargmin :: "pyfloat list \<Rightarrow> error + nat" where
  "nanargmin xs =
     (case nanargmin_from 0 None xs of
        None \<Rightarrow> Inl ValueError_all_nan
      | Some (i, m) \<Rightarrow> Inr i)"

text \<open>
  \<^verbatim>\<open>
  def calculate_eer(y_true, y_pred):
      fpr, tpr, thresholds = roc_curve(y_true, y_pred)
      fnr = 1 - tpr
      eer_threshold_index = np.nanargmin(np.abs(fnr - fpr))
      eer = (fpr[eer_threshold_index] + fnr[eer_threshold_index]) / 2
      return eer
  \<close>
\<close>

definition calculate_eer :: "bool list \<Rightarrow> real list \<Rightarrow> error + pyfloat" where
  "calculate_eer y_true y_pred =
     (case roc_curve y_true y_pred of
        Inl e \<Rightarrow> Inl e
      | Inr (fpr, tpr, thresholds) \<Rightarrow>
          let fnr = map (\<lambda>t. py_sub (Some 1) t) tpr;
              gaps = map (\<lambda>(a, b). py_abs (py_sub a b)) (zip fnr fpr)
          in (case nanargmin gaps of
                Inl e \<Rightarrow> Inl e
              | Inr eer_threshold_index \<Rightarrow>
                  Inr (py_half (py_add (fpr ! eer_threshold_index)
                                       (fnr ! eer_threshold_index)))))"

text \<open>
  The same computation in double precision: the quotients of \<open>roc_curve\<close>, the
  differences \<open>1 - tpr\<close> and \<open>fnr - fpr\<close>, the sum and its half are each rounded;
  the counts are integers and the absolute value is exact.
\<close>

definition py_sub_fp :: "(real \<Rightarrow> real) \<Rightarrow> pyfloat \<Rightarrow> pyfloat \<Rightarrow> pyfloat" where
  "py_sub_fp rnd a b = map_option rnd (py_sub a b)"

definition py_add_fp :: "(real \<Rightarrow> real) \<Rightarrow> pyfloat \<Rightarrow> pyfloat \<Rightarrow> pyfloat" where
  "py_add_fp rnd a b = map_option rnd (py_add a b)"

definition py_half_fp :: "(real \<Rightarrow> real) \<Rightarrow> pyfloat \<Rightarrow> pyfloat" where
  "py_half_fp rnd a = map_option rnd (py_half a)"

definition rates_fp :: "(real \<Rightarrow> real) \<Rightarrow> int list \<Rightarrow> pyfloat list" where
  "rates_fp rnd ps =
     (if last ps \<le> 0 then replicate (length ps) None
      else map (\<lambda>p. Some (rnd (real_of_int p / real_of_int (last ps)))) ps)"

definition roc_curve_fp ::
  "(real \<Rightarrow> real) \<Rightarrow> bool list \<Rightarrow> real list
     \<Rightarrow> error + (pyfloat list \<times> pyfloat list \<times> threshold list)" where
  "roc_curve_fp rnd y_true y_score =
     (case binary_clf_curve y_true y_score of
        Inl e \<Rightarrow> Inl e
      | Inr (fps, tps, thresholds) \<Rightarrow>
          let keep = (if length fps > 2 then optimal_idxs fps tps else [0 ..< length fps]);
              fps1 = 0 # map (\<lambda>i. fps ! i) keep;
              tps1 = 0 # map (\<lambda>i. tps ! i) keep;
              thresholds1 = PosInf # map (\<lambda>i. Finite (thresholds ! i)) keep
          in Inr (rates_fp rnd fps1, rates_fp rnd tps1, thresholds1))"

definition calculate_eer_fp :: "(real \<Rightarrow> real) \<Rightarrow> bool list \<Rightarrow> real list \<Rightarrow> error + pyfloat" where
  "calculate_eer_fp rnd y_true y_pred =
     (case roc_curve_fp rnd y_true y_pred of
        Inl e \<Rightarrow> Inl e
      | Inr (fpr, tpr, thresholds) \<Rightarrow>
          let fnr = map (\<lambda>t. py_sub_fp rnd (Some 1) t) tpr;
              gaps = map (\<lambda>(a, b). py_abs (py_sub_fp rnd a b)) (zip fnr fpr)
          in (case nanargmin gaps of
                Inl e \<Rightarrow> Inl e
              | Inr eer_threshold_index \<Rightarrow>
                  Inr (py_half_fp rnd (py_add_fp rnd (fpr ! eer_threshold_index)
                                                     (fnr ! eer_threshold_index)))))"

text \<open>The numbers of positive and of negative labels.\<close>

definition positives :: "bool list \<Rightarrow> int" where
  "positives y_true = sum_list (map (\<lambda>t. if t then 1 else 0) y_true)"

definition negatives :: "bool list \<Rightarrow> int" where
  "negatives y_true = int (length y_true) - positives y_true"

subsection \<open>The specification's wording, for comparison\<close>

text \<open>
  The confusion counts of the specification: a prediction is positive iff its score is
  strictly above 0.5. \<open>confusion True True\<close> is TP, \<open>confusion False False\<close> is TN,
  \<open>confusion False True\<close> is FP and \<open>confusion True False\<close> is FN.
\<close>

definition confusion :: "bool \<Rightarrow> bool \<Rightarrow> bool list \<Rightarrow> real list \<Rightarrow> nat" where
  "confusion t p labels scores =
     length (filter (\<lambda>(l, s). l = t \<and> (s > 1/2) = p) (zip labels scores))"

text \<open>
  The equal error rate as the specification words it: one operating point for every
  distinct score taken as threshold (predicted positive iff the score reaches the
  threshold), lowest threshold first; the first point with the smallest |FNR - FPR|;
  the mean of FPR and FNR there.
\<close>

definition operating_point :: "bool list \<Rightarrow> real list \<Rightarrow> real \<Rightarrow> real \<times> real" where
  "operating_point labels scores t =
     (let neg = filter (\<lambda>(l, s). \<not> l) (zip labels scores);
          pos = filter (\<lambda>(l, s). l) (zip labels scores)
      in (real (length (filter (\<lambda>(l, s). s \<ge> t) neg)) / real (length neg),
          real (length (filter (\<lambda>(l, s). s < t) pos)) / real (length pos)))"

fun first_min_index :: "real list \<Rightarrow> nat" where
  "first_min_index [] = 0"
| "first_min_index [x] = 0"
| "first_min_index (x # y # ys) =
     (let j = first_min_index (y # ys)
      in if x \<le> (y # ys) ! j then 0 else Suc j)"

definition equal_error_rate_spec :: "bool list \<Rightarrow> real list \<Rightarrow> real" where
  "equal_error_rate_spec labels scores =
     (let thresholds = sort (remdups scores);
          points = map (operating_point labels scores) thresholds;
          gaps = map (\<lambda>(fpr, fnr). \<bar>fnr - fpr\<bar>) points;
          i = first_min_index gaps
      in (fst (points ! i) + snd (points ! i)) / 2)"

subsection \<open>Facts about the monitor\<close>

lemma calls_Nil: "EarlyStopping_calls s [] = s"
  by (simp add: EarlyStopping_calls_def)

lemma calls_snoc:
  "EarlyStopping_calls s (vs @ [v]) = EarlyStopping_call (EarlyStopping_calls s vs) v"
  by (simp add: EarlyStopping_calls_def)

lemma calls_Cons:
  "EarlyStopping_calls s (v # vs) = EarlyStopping_calls (EarlyStopping_call s v) vs"
  by (simp add: EarlyStopping_calls_def)

lemma call_params:
  "patience (EarlyStopping_call s v) = patience s \<and> delta (EarlyStopping_call s v) = delta s"
  by (simp add: EarlyStopping_call_def Let_def split: option.split)

lemma monitor_after_params:
  "patience (monitor_after p d vs) = p \<and> delta (monitor_after p d vs) = d"
proof (induction vs rule: rev_induct)
  case Nil
  show ?case by (simp add: monitor_after_def calls_Nil EarlyStopping_init_def)
next
  case (snoc v vs)
  then show ?case by (simp add: monitor_after_def calls_snoc call_params)
qed

lemma call_keeps_stop: "early_stop s \<Longrightarrow> early_stop (EarlyStopping_call s v)"
  by (simp add: EarlyStopping_call_def Let_def split: option.split)

lemma call_invariant:
  assumes "1 \<le> patience s" and "\<not> early_stop s \<longrightarrow> counter s < patience s"
  shows "\<not> early_stop (EarlyStopping_call s v)
           \<longrightarrow> counter (EarlyStopping_call s v) < patience (EarlyStopping_call s v)"
  using assms by (auto simp add: EarlyStopping_call_def Let_def split: option.split)

text \<open>The monitor in double precision; with exact arithmetic it is the monitor above.\<close>

lemma monitor_after_fp_Nil: "monitor_after_fp rnd p d [] = EarlyStopping_init p d"
  by (simp add: monitor_after_fp_def)

lemma monitor_after_fp_snoc:
  "monitor_after_fp rnd p d (vs @ [v]) = EarlyStopping_call_fp rnd (monitor_after_fp rnd p d vs) v"
  by (simp add: monitor_after_fp_def)

lemma call_fp_exact: "EarlyStopping_call_fp (\<lambda>x. x) s v = EarlyStopping_call s v"
  by (simp add: EarlyStopping_call_fp_def EarlyStopping_call_def)

lemma monitor_after_fp_exact: "monitor_after_fp (\<lambda>x. x) p d vs = monitor_after p d vs"
  by (induction vs rule: rev_induct)
     (simp_all add: monitor_after_fp_Nil monitor_after_fp_snoc monitor_after_def calls_Nil
        calls_snoc call_fp_exact)

lemma call_fp_params:
  "patience (EarlyStopping_call_fp rnd s v) = patience s
   \<and> delta (EarlyStopping_call_fp rnd s v) = delta s"
  by (simp add: EarlyStopping_call_fp_def Let_def split: option.split)

lemma call_fp_best_loss_set: "best_loss (EarlyStopping_call_fp rnd s v) \<noteq> None"
  by (simp add: EarlyStopping_call_fp_def Let_def split: option.split)

lemma monitor_after_fp_params:
  "patience (monitor_after_fp rnd p d vs) = p \<and> delta (monitor_after_fp rnd p d vs) = d"
proof (induction vs rule: rev_induct)
  case Nil
  show ?case by (simp add: monitor_after_fp_Nil EarlyStopping_init_def)
next
  case (snoc v vs)
  then show ?case by (simp add: monitor_after_fp_snoc call_fp_params)
qed

lemma monitor_fp_fresh:
  assumes "best_loss (monitor_after_fp rnd p d vs) = None"
  shows "monitor_after_fp rnd p d vs = EarlyStopping_init p d"
proof (cases vs rule: rev_cases)
  case Nil
  then show ?thesis by (simp add: monitor_after_fp_Nil)
next
  case (snoc ws w)
  with assms show ?thesis
    by (simp add: monitor_after_fp_snoc call_fp_best_loss_set)
qed

text \<open>
  C1. The per-epoch transition of a monitor that was constructed and called any number of
  times, on validation loss \<open>v\<close>, the difference \<open>best_loss - delta\<close> being the
  rounded one the program computes, whatever the rounding: with no best loss recorded,
  \<open>v\<close> becomes the best loss, the counter is 0 and the monitor is not stopped; else if
  \<open>v > best_loss - delta\<close> the counter goes up by one and the stop flag is set when the
  new counter has reached the patience (nothing else changes); otherwise \<open>v\<close> becomes
  the best loss, the counter is reset to 0 and the stop flag keeps its value, so a
  tracking monitor keeps tracking.
\<close>

theorem early_stopping_transition_rule:
  fixes rnd :: "real \<Rightarrow> real" and p :: int and d :: real and vs :: "real list" and v :: real
  defines "s \<equiv> monitor_after_fp rnd p d vs"
  shows "(best_loss s = None \<longrightarrow>
            EarlyStopping_call_fp rnd s v = s\<lparr>best_loss := Some v\<rparr>
            \<and> counter (EarlyStopping_call_fp rnd s v) = 0
            \<and> \<not> early_stop (EarlyStopping_call_fp rnd s v))
       \<and> (\<forall>b. best_loss s = Some b \<and> v > rnd (b - d) \<longrightarrow>
            EarlyStopping_call_fp rnd s v =
              s\<lparr>counter := counter s + 1,
                early_stop := (early_stop s \<or> counter s + 1 \<ge> p)\<rparr>)
       \<and> (\<forall>b. best_loss s = Some b \<and> \<not> v > rnd (b - d) \<longrightarrow>
            EarlyStopping_call_fp rnd s v = s\<lparr>best_loss := Some v, counter := 0\<rparr>
            \<and> (\<not> early_stop s \<longrightarrow> \<not> early_stop (EarlyStopping_call_fp rnd s v)))"
proof -
  have par: "patience s = p" "delta s = d"
    using monitor_after_fp_params [of rnd p d vs] by (simp_all add: s_def)
  have c1: "best_loss s = None \<longrightarrow>
            EarlyStopping_call_fp rnd s v = s\<lparr>best_loss := Some v\<rparr>
            \<and> counter (EarlyStopping_call_fp rnd s v) = 0
            \<and> \<not> early_stop (EarlyStopping_call_fp rnd s v)"
  proof
    assume n: "best_loss s = None"
    then have "s = EarlyStopping_init p d"
      unfolding s_def by (rule monitor_fp_fresh)
    then show "EarlyStopping_call_fp rnd s v = s\<lparr>best_loss := Some v\<rparr>
            \<and> counter (EarlyStopping_call_fp rnd s v) = 0
            \<and> \<not> early_stop (EarlyStopping_call_fp rnd s v)"
      by (simp add: EarlyStopping_call_fp_def EarlyStopping_init_def)
  qed
  have c2: "\<forall>b. best_loss s = Some b \<and> v > rnd (b - d) \<longrightarrow>
            EarlyStopping_call_fp rnd s v =
              s\<lparr>counter := counter s + 1,
                early_stop := (early_stop s \<or> counter s + 1 \<ge> p)\<rparr>"
    using par by (auto simp add: EarlyStopping_call_fp_def Let_def)
  have c3: "\<forall>b. best_loss s = Some b \<and> \<not> v > rnd (b - d) \<longrightarrow>
            EarlyStopping_call_fp rnd s v = s\<lparr>best_loss := Some v, counter := 0\<rparr>
            \<and> (\<not> early_stop s \<longrightarrow> \<not> early_stop (EarlyStopping_call_fp rnd s v))"
    using par by (auto simp add: EarlyStopping_call_fp_def Let_def)
  from c1 c2 c3 show ?thesis by blast
qed

text \<open>
  The rule at three calls under \<open>round_double\<close>: a first call, a stagnating call, and
  the call with patience 1, delta \<open>2^-60\<close> and losses 1.0, 1.0, where the rounded
  difference \<open>1 - 2^-60\<close> is 1 and the equal loss therefore counts as an improvement.
\<close>

lemma rd1: "round_double (1 - 0) = 1"
  by (simp add: round_double_def round_to_grid_def round_half_even_def)

lemma rd2: "round_double (1 - 1 / 2 ^ 60) = 1"
  by (simp add: round_double_def round_to_grid_def round_half_even_def)

lemma m0: "monitor_after_fp round_double 2 0 [] =
    \<lparr>patience = 2, delta = 0, best_loss = None, counter = 0, early_stop = False\<rparr>"
  by (simp add: monitor_after_fp_Nil EarlyStopping_init_def)

lemma m1: "monitor_after_fp round_double 2 0 [1] =
    \<lparr>patience = 2, delta = 0, best_loss = Some 1, counter = 0, early_stop = False\<rparr>"
  by (simp add: monitor_after_fp_def EarlyStopping_init_def EarlyStopping_call_fp_def)

lemma m2: "monitor_after_fp round_double 1 (1 / 2 ^ 60) [1] =
    \<lparr>patience = 1, delta = 1 / 2 ^ 60, best_loss = Some 1, counter = 0, early_stop = False\<rparr>"
  by (simp add: monitor_after_fp_def EarlyStopping_init_def EarlyStopping_call_fp_def)

theorem early_stopping_transition_rule_witness:
  "(best_loss (monitor_after_fp round_double 2 0 []) = None
      \<and> EarlyStopping_call_fp round_double (monitor_after_fp round_double 2 0 []) 1
          = (monitor_after_fp round_double 2 0 [])\<lparr>best_loss := Some 1\<rparr>
      \<and> counter (EarlyStopping_call_fp round_double (monitor_after_fp round_double 2 0 []) 1) = 0
      \<and> \<not> early_stop (EarlyStopping_call_fp round_double (monitor_after_fp round_double 2 0 []) 1))
   \<and> (best_loss (monitor_after_fp round_double 2 0 [1]) = Some 1
      \<and> (2::real) > round_double (1 - 0)
      \<and> EarlyStopping_call_fp round_double (monitor_after_fp round_double 2 0 [1]) 2 =
          (monitor_after_fp round_double 2 0 [1])
            \<lparr>counter := counter (monitor_after_fp round_double 2 0 [1]) + 1,
             early_stop := (early_stop (monitor_after_fp round_double 2 0 [1])
                            \<or> counter (monitor_after_fp round_double 2 0 [1]) + 1 \<ge> 2)\<rparr>)
   \<and> (best_loss (monitor_after_fp round_double 1 (1 / 2 ^ 60) [1]) = Some 1
      \<and> \<not> (1::real) > round_double (1 - 1 / 2 ^ 60)
      \<and> EarlyStopping_call_fp round_double (monitor_after_fp round_double 1 (1 / 2 ^ 60) [1]) 1 =
          (monitor_after_fp round_double 1 (1 / 2 ^ 60) [1])\<lparr>best_loss := Some 1, counter := 0\<rparr>
      \<and> counter (EarlyStopping_call_fp round_double
                    (monitor_after_fp round_double 1 (1 / 2 ^ 60) [1]) 1) = 0
      \<and> \<not> early_stop (EarlyStopping_call_fp round_double
                    (monitor_after_fp round_double 1 (1 / 2 ^ 60) [1]) 1))"
proof -
  have h1: "best_loss (monitor_after_fp round_double 2 0 []) = None"
    by (simp add: m0)
  have h2: "best_loss (monitor_after_fp round_double 2 0 [1]) = Some 1"
    by (simp add: m1)
  have h3: "(2::real) > round_double (1 - 0)"
    using rd1 by simp
  have h4: "best_loss (monitor_after_fp round_double 1 (1 / 2 ^ 60) [1]) = Some 1"
    and h5: "\<not> early_stop (monitor_after_fp round_double 1 (1 / 2 ^ 60) [1])"
    using m2 by simp_all
  have h6: "\<not> (1::real) > round_double (1 - 1 / 2 ^ 60)"
    using rd2 by simp
  have r3: "EarlyStopping_call_fp round_double (monitor_after_fp round_double 1 (1 / 2 ^ 60) [1]) 1 =
          (monitor_after_fp round_double 1 (1 / 2 ^ 60) [1])\<lparr>best_loss := Some 1, counter := 0\<rparr>
      \<and> \<not> early_stop (EarlyStopping_call_fp round_double
                    (monitor_after_fp round_double 1 (1 / 2 ^ 60) [1]) 1)"
    using h4 h5 h6 early_stopping_transition_rule [of round_double 1 "1 / 2 ^ 60" "[1]" 1]
    by blast
  then have r3c: "counter (EarlyStopping_call_fp round_double
                    (monitor_after_fp round_double 1 (1 / 2 ^ 60) [1]) 1) = 0"
    by simp
  show ?thesis
    using h1 h2 h3 h4 h6 r3 r3c
      early_stopping_transition_rule [of round_double 2 0 "[]" 1]
      early_stopping_transition_rule [of round_double 2 0 "[1]" 2]
    by blast
qed

text \<open>
  C3 (as stated, refuted). A monitor built with patience 1 and called with losses 1 and 2
  is stopped; one more call, with loss 3, takes the stagnation branch and raises the
  counter from 1 to 2, so the state is not left unchanged.
\<close>

theorem stopped_monitor_call_changes_state:
  "early_stop (monitor_after 1 0 [1, 2])
   \<and> EarlyStopping_call (monitor_after 1 0 [1, 2]) 3 \<noteq> monitor_after 1 0 [1, 2]
   \<and> counter (monitor_after 1 0 [1, 2]) = 1
   \<and> counter (EarlyStopping_call (monitor_after 1 0 [1, 2]) 3) = 2"
  by (simp add: monitor_after_def calls_Cons calls_Nil EarlyStopping_init_def
      EarlyStopping_call_def)

text \<open>
  C3 (amended). Once the stop flag is set, every further call, and every further sequence
  of calls, leaves the flag set and leaves patience and delta as they were; the call is a
  total function, so no error is raised. The counter and the best loss are still updated
  by the transition rule.
\<close>

theorem stopped_monitor_stays_stopped:
  "early_stop s \<Longrightarrow>
     early_stop (EarlyStopping_call s v)
     \<and> patience (EarlyStopping_call s v) = patience s
     \<and> delta (EarlyStopping_call s v) = delta s
     \<and> early_stop (EarlyStopping_calls s vs)"
proof -
  assume st: "early_stop s"
  have "early_stop (EarlyStopping_calls s vs)"
  proof (induction vs rule: rev_induct)
    case Nil
    show ?case using st by (simp add: calls_Nil)
  next
    case (snoc w ws)
    then show ?case by (simp add: calls_snoc call_keeps_stop)
  qed
  with st show ?thesis
    by (simp add: call_keeps_stop call_params)
qed

theorem stopped_monitor_stays_stopped_witness:
  "early_stop (monitor_after 1 0 [1, 2])
   \<and> early_stop (EarlyStopping_call (monitor_after 1 0 [1, 2]) 3)
   \<and> patience (EarlyStopping_call (monitor_after 1 0 [1, 2]) 3) = patience (monitor_after 1 0 [1, 2])
   \<and> delta (EarlyStopping_call (monitor_after 1 0 [1, 2]) 3) = delta (monitor_after 1 0 [1, 2])
   \<and> early_stop (EarlyStopping_calls (monitor_after 1 0 [1, 2]) [1/2, 4])"
proof -
  have h: "early_stop (monitor_after 1 0 [1, 2])"
    by (simp add: monitor_after_def calls_Cons calls_Nil EarlyStopping_init_def
        EarlyStopping_call_def)
  show ?thesis
    using h stopped_monitor_stays_stopped [OF h, of 3 "[1/2, 4]"] by blast
qed

lemma constant_losses_state:
  "monitor_after p 0 (replicate (Suc n) v) =
     \<lparr>patience = p, delta = 0, best_loss = Some v, counter = 0, early_stop = False\<rparr>"
proof (induction n)
  case 0
  show ?case
    by (simp add: monitor_after_def calls_Cons calls_Nil EarlyStopping_init_def
        EarlyStopping_call_def)
next
  case (Suc n)
  have "replicate (Suc (Suc n)) v = replicate (Suc n) v @ [v]"
    by (simp add: replicate_append_same)
  then have "monitor_after p 0 (replicate (Suc (Suc n)) v) =
        EarlyStopping_call (monitor_after p 0 (replicate (Suc n) v)) v"
    by (simp only: monitor_after_def calls_snoc)
  with Suc show ?case
    by (simp add: EarlyStopping_call_def)
qed

text \<open>
  C5. With delta = 0, a call whose loss equals the recorded best loss takes the improvement
  branch: the best loss is written again, the counter is reset to 0 and the stop flag
  keeps its value. The constant sequence 1.0, 1.0, 1.0 with patience 2 and delta 0 leaves
  the monitor tracking with counter 0, and so does a constant sequence of any length.
\<close>

theorem equal_loss_counts_as_improvement:
  "(delta s = 0 \<and> best_loss s = Some v \<longrightarrow>
      EarlyStopping_call s v = s\<lparr>best_loss := Some v, counter := 0\<rparr>
      \<and> counter (EarlyStopping_call s v) = 0
      \<and> early_stop (EarlyStopping_call s v) = early_stop s)
   \<and> \<not> early_stop (monitor_after 2 0 [1, 1, 1])
   \<and> counter (monitor_after 2 0 [1, 1, 1]) = 0
   \<and> \<not> early_stop (monitor_after 2 0 (replicate n 1))"
proof -
  have a: "delta s = 0 \<and> best_loss s = Some v \<longrightarrow>
      EarlyStopping_call s v = s\<lparr>best_loss := Some v, counter := 0\<rparr>
      \<and> counter (EarlyStopping_call s v) = 0
      \<and> early_stop (EarlyStopping_call s v) = early_stop s"
    by (simp add: EarlyStopping_call_def)
  have "[1, 1, 1] = replicate (Suc 2) (1::real)"
    by (simp add: numeral_2_eq_2)
  then have b: "\<not> early_stop (monitor_after 2 0 [1, 1, 1])
      \<and> counter (monitor_after 2 0 [1, 1, 1]) = 0"
    by (simp only: constant_losses_state) simp
  have c: "\<not> early_stop (monitor_after 2 0 (replicate n 1))"
  proof (cases n)
    case 0
    then show ?thesis
      by (simp add: monitor_after_def calls_Nil EarlyStopping_init_def)
  next
    case (Suc m)
    then show ?thesis by (simp only: constant_losses_state) simp
  qed
  from a b c show ?thesis by blast
qed

theorem equal_loss_counts_as_improvement_witness:
  "delta (monitor_after 2 0 [1, 3]) = 0 \<and> best_loss (monitor_after 2 0 [1, 3]) = Some 1
   \<and> counter (monitor_after 2 0 [1, 3]) = 1
   \<and> EarlyStopping_call (monitor_after 2 0 [1, 3]) 1 =
       (monitor_after 2 0 [1, 3])\<lparr>best_loss := Some 1, counter := 0\<rparr>
   \<and> counter (EarlyStopping_call (monitor_after 2 0 [1, 3]) 1) = 0
   \<and> \<not> early_stop (monitor_after 2 0 (replicate 7 1))"
proof -
  have h: "delta (monitor_after 2 0 [1, 3]) = 0 \<and> best_loss (monitor_after 2 0 [1, 3]) = Some 1
      \<and> counter (monitor_after 2 0 [1, 3]) = 1"
    by (simp add: monitor_after_def calls_Cons calls_Nil EarlyStopping_init_def
        EarlyStopping_call_def)
  show ?thesis
    using h equal_loss_counts_as_improvement [of "monitor_after 2 0 [1, 3]" 1 7] by blast
qed

text \<open>
  C10. For a monitor constructed with patience at least 1 and delta at least 0, after any
  sequence of calls: if the stop flag is not set, the counter is below the patience. The
  flag is therefore set in the very call that brings the counter up to the patience.
\<close>

theorem tracking_counter_below_patience:
  assumes "1 \<le> p" and "0 \<le> d"
  shows "\<not> early_stop (monitor_after p d vs) \<longrightarrow> counter (monitor_after p d vs) < p"
proof (induction vs rule: rev_induct)
  case Nil
  show ?case using assms(1)
    by (simp add: monitor_after_def calls_Nil EarlyStopping_init_def)
next
  case (snoc v vs)
  have pat: "patience (monitor_after p d vs) = p"
    using monitor_after_params [of p d vs] by simp
  have "\<not> early_stop (EarlyStopping_call (monitor_after p d vs) v) \<longrightarrow>
        counter (EarlyStopping_call (monitor_after p d vs) v)
          < patience (EarlyStopping_call (monitor_after p d vs) v)"
    using assms(1) snoc.IH pat by (intro call_invariant) simp_all
  then show ?case
    using pat by (simp add: monitor_after_def calls_snoc call_params)
qed

theorem tracking_counter_below_patience_witness:
  "(1::int) \<le> 2 \<and> (0::real) \<le> 0
   \<and> \<not> early_stop (monitor_after 2 0 [1, 2])
   \<and> counter (monitor_after 2 0 [1, 2]) < 2"
proof -
  have h1: "(1::int) \<le> 2" and h2: "(0::real) \<le> 0" by simp_all
  have h3: "\<not> early_stop (monitor_after 2 0 [1, 2])"
    by (simp add: monitor_after_def calls_Cons calls_Nil EarlyStopping_init_def
        EarlyStopping_call_def)
  show ?thesis
    using h1 h2 h3 tracking_counter_below_patience [OF h1 h2, of "[1, 2]"] by blast
qed

subsection \<open>Facts about best-model tracking\<close>

lemma run_callbacks_snoc:
  "run_callbacks g (ts @ [t]) =
     (case run_callbacks g ts of
        Inl e \<Rightarrow> Inl e
      | Inr g' \<Rightarrow> save_best_model_callback g' t)"
  by (induction ts arbitrary: g) (auto split: sum.split)

lemma callback_total:
  "attr_best_model_path t \<noteq> None \<Longrightarrow> \<exists>g1. save_best_model_callback g t = Inr g1"
  by (cases "attr_best_model_path t") (simp_all add: save_best_model_callback_def Let_def)

lemma run_callbacks_total:
  "\<forall>t \<in> set ts. attr_best_model_path t \<noteq> None \<Longrightarrow> \<exists>g'. run_callbacks g ts = Inr g'"
proof (induction ts arbitrary: g)
  case Nil
  show ?case by simp
next
  case (Cons t ts)
  then have "attr_best_model_path t \<noteq> None" by simp
  then obtain g1 where "save_best_model_callback g t = Inr g1"
    using callback_total by blast
  with Cons show ?case by simp
qed

lemma tracks_best_Nil: "tracks_best [] main_globals"
  by (simp add: tracks_best_def main_globals_def)

lemma callback_cases:
  assumes "save_best_model_callback g t = Inr g'"
  obtains (replace) path where "attr_best_model_path t = Some path"
      "attr_best_val_loss t < best_validation_loss g"
      "g' = g\<lparr>best_validation_loss := attr_best_val_loss t,
              best_model_path := Some path, study_best_model_path := Some path\<rparr>"
  | (keep) "attr_best_model_path t \<noteq> None"
      "\<not> attr_best_val_loss t < best_validation_loss g" "g' = g"
  using assms
  by (cases "attr_best_model_path t"; cases "attr_best_val_loss t < best_validation_loss g")
     (simp_all add: save_best_model_callback_def Let_def)

lemma points_to_first_lowest_append:
  assumes "points_to_first_lowest ts g i"
  shows "points_to_first_lowest (ts @ [t]) g i"
proof -
  have i: "i < length ts"
    using assms by (simp add: points_to_first_lowest_def)
  then have n: "(ts @ [t]) ! i = ts ! i"
    by (simp add: nth_append)
  have m: "\<forall>j < i. (ts @ [t]) ! j = ts ! j"
    using i by (simp add: nth_append)
  have "i < length (ts @ [t])"
    using i by simp
  with assms show ?thesis
    unfolding points_to_first_lowest_def n using m by metis
qed

lemma tracks_best_step:
  assumes inv: "tracks_best ts g" and step: "save_best_model_callback g t = Inr g'"
  shows "tracks_best (ts @ [t]) g'"
  using step
proof (cases rule: callback_cases)
  case (replace path)
  have b: "best_validation_loss g \<le> 1000000"
    and l: "\<forall>u \<in> set ts. best_validation_loss g \<le> attr_best_val_loss u"
    using inv by (simp_all add: tracks_best_def)
  have lt: "attr_best_val_loss t < 1000000"
    using replace(2) b by simp
  have low: "\<forall>u \<in> set ts. attr_best_val_loss t < attr_best_val_loss u"
  proof
    fix u assume "u \<in> set ts"
    with l have "best_validation_loss g \<le> attr_best_val_loss u" by blast
    with replace(2) show "attr_best_val_loss t < attr_best_val_loss u" by simp
  qed
  have low_nth: "\<forall>j < length ts. attr_best_val_loss t < attr_best_val_loss (ts ! j)"
    using low by simp
  have idx: "points_to_first_lowest (ts @ [t]) g' (length ts)"
    using low_nth replace(1) by (simp add: points_to_first_lowest_def replace(3) nth_append)
  have b': "best_validation_loss g' = attr_best_val_loss t"
    and s': "study_best_model_path g' = best_model_path g'"
    by (simp_all add: replace(3))
  have l': "\<forall>u \<in> set (ts @ [t]). best_validation_loss g' \<le> attr_best_val_loss u"
    using low by (auto simp add: b' less_imp_le)
  show ?thesis
    unfolding tracks_best_def using lt l' s' idx b' by auto
next
  case keep
  have b: "best_validation_loss g \<le> 1000000"
    and l: "\<forall>u \<in> set ts. best_validation_loss g \<le> attr_best_val_loss u"
    and s: "study_best_model_path g = best_model_path g"
    and d: "(best_validation_loss g = 1000000 \<and> best_model_path g = None)
        \<or> (best_validation_loss g < 1000000 \<and> (\<exists>i. points_to_first_lowest ts g i))"
    using inv by (simp_all add: tracks_best_def)
  have l': "\<forall>u \<in> set (ts @ [t]). best_validation_loss g \<le> attr_best_val_loss u"
    using l keep(2) by auto
  have d': "(best_validation_loss g = 1000000 \<and> best_model_path g = None)
        \<or> (best_validation_loss g < 1000000 \<and> (\<exists>i. points_to_first_lowest (ts @ [t]) g i))"
    using d points_to_first_lowest_append by blast
  show ?thesis
    unfolding tracks_best_def keep(3) using b l' s d' by blast
qed

lemma run_callbacks_tracks_best:
  "run_callbacks main_globals ts = Inr g \<Longrightarrow> tracks_best ts g"
proof (induction ts arbitrary: g rule: rev_induct)
  case Nil
  then show ?case using tracks_best_Nil by simp
next
  case (snoc t ts)
  then obtain g1 where g1: "run_callbacks main_globals ts = Inr g1"
      and st: "save_best_model_callback g1 t = Inr g"
    by (auto simp add: run_callbacks_snoc split: sum.splits)
  from snoc.IH [OF g1] st show ?case by (rule tracks_best_step)
qed


text \<open>
  C4. The callback receives the trials of the objective: a trial has a stored model path
  only if one of its epochs had a loss below the trial's best so far, and that loss is a
  mean of \<open>BCELoss\<close> values, each at most 100, hence below the initial global best
  1000000, which so stands for infinity: the callback of any such trial on the initial
  state replaces the record. The callback replaces loss and path iff the trial's loss is
  strictly lower than the recorded one and otherwise changes no state, and the recorded
  loss never goes up. After any non-empty sequence of such trials the run has returned,
  the recorded loss is the lowest loss of all trials, and the recorded path (global and
  study attribute) is that of the first trial with that loss.
\<close>

theorem best_model_tracking:
  assumes "\<forall>t \<in> set ts. attr_best_model_path t \<noteq> None \<and> attr_best_val_loss t < 1000000"
  shows "(\<exists>g. run_callbacks main_globals ts = Inr g
           \<and> (ts = [] \<longrightarrow> g = main_globals)
           \<and> (ts \<noteq> [] \<longrightarrow>
                (\<forall>t \<in> set ts. best_validation_loss g \<le> attr_best_val_loss t)
                \<and> (\<exists>i < length ts.
                      attr_best_val_loss (ts ! i) = best_validation_loss g
                      \<and> best_model_path g = attr_best_model_path (ts ! i)
                      \<and> study_best_model_path g = attr_best_model_path (ts ! i)
                      \<and> (\<forall>j < i. best_validation_loss g < attr_best_val_loss (ts ! j)))))
       \<and> (\<forall>t \<in> set ts. save_best_model_callback main_globals t =
             Inr (main_globals\<lparr>best_validation_loss := attr_best_val_loss t,
                               best_model_path := attr_best_model_path t,
                               study_best_model_path := attr_best_model_path t\<rparr>))
       \<and> (\<forall>g t g'. save_best_model_callback g t = Inr g' \<longrightarrow>
             best_validation_loss g' \<le> best_validation_loss g
             \<and> (attr_best_val_loss t < best_validation_loss g \<longrightarrow>
                   best_validation_loss g' = attr_best_val_loss t
                   \<and> best_model_path g' = attr_best_model_path t)
             \<and> (\<not> attr_best_val_loss t < best_validation_loss g \<longrightarrow> g' = g))"
proof -
  have paths: "\<forall>t \<in> set ts. attr_best_model_path t \<noteq> None"
    using assms by blast
  obtain g where run: "run_callbacks main_globals ts = Inr g"
    using run_callbacks_total [OF paths] by blast
  then have inv: "tracks_best ts g"
    by (rule run_callbacks_tracks_best)
  have l: "\<forall>t \<in> set ts. best_validation_loss g \<le> attr_best_val_loss t"
    and s: "study_best_model_path g = best_model_path g"
    and d: "(best_validation_loss g = 1000000 \<and> best_model_path g = None)
        \<or> (best_validation_loss g < 1000000 \<and> (\<exists>i. points_to_first_lowest ts g i))"
    using inv by (simp_all add: tracks_best_def)
  have e: "ts = [] \<longrightarrow> g = main_globals"
    using run by auto
  have n: "ts \<noteq> [] \<longrightarrow>
                (\<forall>t \<in> set ts. best_validation_loss g \<le> attr_best_val_loss t)
                \<and> (\<exists>i < length ts.
                      attr_best_val_loss (ts ! i) = best_validation_loss g
                      \<and> best_model_path g = attr_best_model_path (ts ! i)
                      \<and> study_best_model_path g = attr_best_model_path (ts ! i)
                      \<and> (\<forall>j < i. best_validation_loss g < attr_best_val_loss (ts ! j)))"
  proof
    assume "ts \<noteq> []"
    then obtain t where t: "t \<in> set ts" by (cases ts) auto
    with assms have "attr_best_val_loss t < 1000000" by blast
    moreover from l t have "best_validation_loss g \<le> attr_best_val_loss t" by blast
    ultimately have "best_validation_loss g < 1000000" by simp
    with d obtain i where "points_to_first_lowest ts g i" by auto
    then have "\<exists>i < length ts.
                      attr_best_val_loss (ts ! i) = best_validation_loss g
                      \<and> best_model_path g = attr_best_model_path (ts ! i)
                      \<and> study_best_model_path g = attr_best_model_path (ts ! i)
                      \<and> (\<forall>j < i. best_validation_loss g < attr_best_val_loss (ts ! j))"
      using s unfolding points_to_first_lowest_def by metis
    with l show "(\<forall>t \<in> set ts. best_validation_loss g \<le> attr_best_val_loss t)
                \<and> (\<exists>i < length ts.
                      attr_best_val_loss (ts ! i) = best_validation_loss g
                      \<and> best_model_path g = attr_best_model_path (ts ! i)
                      \<and> study_best_model_path g = attr_best_model_path (ts ! i)
                      \<and> (\<forall>j < i. best_validation_loss g < attr_best_val_loss (ts ! j)))"
      by blast
  qed
  have first: "\<forall>t \<in> set ts. save_best_model_callback main_globals t =
             Inr (main_globals\<lparr>best_validation_loss := attr_best_val_loss t,
                               best_model_path := attr_best_model_path t,
                               study_best_model_path := attr_best_model_path t\<rparr>)"
  proof
    fix t assume "t \<in> set ts"
    with assms obtain path where "attr_best_model_path t = Some path"
      and "attr_best_val_loss t < 1000000" by auto
    then show "save_best_model_callback main_globals t =
             Inr (main_globals\<lparr>best_validation_loss := attr_best_val_loss t,
                               best_model_path := attr_best_model_path t,
                               study_best_model_path := attr_best_model_path t\<rparr>)"
      by (simp add: save_best_model_callback_def Let_def main_globals_def)
  qed
  have step: "\<forall>g t g'. save_best_model_callback g t = Inr g' \<longrightarrow>
             best_validation_loss g' \<le> best_validation_loss g
             \<and> (attr_best_val_loss t < best_validation_loss g \<longrightarrow>
                   best_validation_loss g' = attr_best_val_loss t
                   \<and> best_model_path g' = attr_best_model_path t)
             \<and> (\<not> attr_best_val_loss t < best_validation_loss g \<longrightarrow> g' = g)"
  proof (intro allI impI)
    fix g t g'
    assume "save_best_model_callback g t = Inr g'"
    then show "best_validation_loss g' \<le> best_validation_loss g
             \<and> (attr_best_val_loss t < best_validation_loss g \<longrightarrow>
                   best_validation_loss g' = attr_best_val_loss t
                   \<and> best_model_path g' = attr_best_model_path t)
             \<and> (\<not> attr_best_val_loss t < best_validation_loss g \<longrightarrow> g' = g)"
      by (cases rule: callback_cases) simp_all
  qed
  from run e n first step show ?thesis by blast
qed

lemma scenario_run:
  "run_callbacks main_globals scenario_trials =
     Inr \<lparr>best_model_path = Some ''tmp_model_trial_3.pth'', best_validation_loss = 2/10,
          study_best_model_path = Some ''tmp_model_trial_3.pth''\<rparr>"
  by (simp add: scenario_trials_def save_best_model_callback_def Let_def main_globals_def)

lemma scenario_receivable:
  "list_all (\<lambda>t. attr_best_model_path t \<noteq> None \<and> attr_best_val_loss t < 1000000) scenario_trials"
  by (simp add: scenario_trials_def)

theorem best_model_tracking_witness:
  "list_all (\<lambda>t. attr_best_model_path t \<noteq> None \<and> attr_best_val_loss t < 1000000) scenario_trials
   \<and> scenario_trials \<noteq> []
   \<and> (\<exists>g. run_callbacks main_globals scenario_trials = Inr g
           \<and> (\<forall>t \<in> set scenario_trials. best_validation_loss g \<le> attr_best_val_loss t)
           \<and> (\<exists>i < length scenario_trials.
                 attr_best_val_loss (scenario_trials ! i) = best_validation_loss g
                 \<and> best_model_path g = attr_best_model_path (scenario_trials ! i)
                 \<and> study_best_model_path g = attr_best_model_path (scenario_trials ! i)
                 \<and> (\<forall>j < i. best_validation_loss g < attr_best_val_loss (scenario_trials ! j))))
   \<and> run_callbacks main_globals scenario_trials =
       Inr \<lparr>best_model_path = Some ''tmp_model_trial_3.pth'', best_validation_loss = 2/10,
            study_best_model_path = Some ''tmp_model_trial_3.pth''\<rparr>"
proof -
  have h: "\<forall>t \<in> set scenario_trials.
      attr_best_model_path t \<noteq> None \<and> attr_best_val_loss t < 1000000"
    using scenario_receivable unfolding list_all_iff .
  have ne: "scenario_trials \<noteq> []"
    by (simp add: scenario_trials_def)
  show ?thesis
    using scenario_receivable ne scenario_run best_model_tracking [OF h] by blast
qed

subsection \<open>Facts about the metrics\<close>

lemma agree_confusion:
  "length labels = length scores \<Longrightarrow>
     length (filter (\<lambda>(t, p). t = p) (zip labels (map (\<lambda>p. p > 1/2) scores)))
       = confusion True True labels scores + confusion False False labels scores"
  by (induction labels scores rule: list_induct2) (auto simp add: confusion_def)

lemma total_confusion:
  "length labels = length scores \<Longrightarrow>
     length labels = confusion True True labels scores + confusion False False labels scores
                   + confusion False True labels scores + confusion True False labels scores"
  by (induction labels scores rule: list_induct2) (auto simp add: confusion_def)

lemma recall_score_total:
  "length y_true = length y_pred \<Longrightarrow> \<exists>r. recall_score y_true y_pred = Inr r"
  unfolding recall_score_def Let_def by (simp split: if_split)

lemma f1_score_total:
  "length y_true = length y_pred \<Longrightarrow> \<exists>f. f1_score y_true y_pred = Inr f"
  unfolding f1_score_def Let_def by (simp split: if_split)

text \<open>
  C9. For label and score sequences of the same non-zero length, the accuracy returned by
  \<open>calculate_metrics\<close> is (TP+TN)/(TP+TN+FP+FN), the counts taken with a prediction
  positive iff its score is strictly above 0.5; a positive sample with score exactly 0.5 is
  a false negative, not a true positive.
\<close>

theorem accuracy_is_correct_fraction:
  assumes "length labels = length scores" and "labels \<noteq> []"
  shows "(\<exists>recall f1. calculate_metrics labels scores =
           Inr (Some (real (confusion True True labels scores + confusion False False labels scores)
                      / real (confusion True True labels scores + confusion False False labels scores
                              + confusion False True labels scores + confusion True False labels scores)),
                recall, f1))
         \<and> confusion True True [True] [1/2] = 0 \<and> confusion True False [True] [1/2] = 1
         \<and> calculate_metrics [True] [1/2] = Inr (Some 0, Some 0, Some 0)"
proof -
  have len: "length labels = length (map (\<lambda>p. p > 1/2) scores)"
    using assms(1) by simp
  have e1: "(length labels \<noteq> length (map (\<lambda>p. p > 1/2) scores)) = False"
    using assms(1) by simp
  have e2: "(labels = []) = False"
    using assms(2) by simp
  have "accuracy_score labels (map (\<lambda>p. p > 1/2) scores) =
      Inr (Some (real (length (filter (\<lambda>(t, p). t = p) (zip labels (map (\<lambda>p. p > 1/2) scores))))
                 / real (length labels)))"
    unfolding accuracy_score_def by (simp only: e1 e2 if_False)
  also have "\<dots> =
      Inr (Some (real (confusion True True labels scores + confusion False False labels scores)
                      / real (confusion True True labels scores + confusion False False labels scores
                              + confusion False True labels scores + confusion True False labels scores)))"
    by (simp only: agree_confusion [OF assms(1)] total_confusion [OF assms(1), symmetric])
  finally have acc: "accuracy_score labels (map (\<lambda>p. p > 1/2) scores) =
      Inr (Some (real (confusion True True labels scores + confusion False False labels scores)
                      / real (confusion True True labels scores + confusion False False labels scores
                              + confusion False True labels scores + confusion True False labels scores)))" .
  obtain r where r: "recall_score labels (map (\<lambda>p. p > 1/2) scores) = Inr r"
    using recall_score_total [OF len] by blast
  obtain f where f: "f1_score labels (map (\<lambda>p. p > 1/2) scores) = Inr f"
    using f1_score_total [OF len] by blast
  have "calculate_metrics labels scores =
           Inr (Some (real (confusion True True labels scores + confusion False False labels scores)
                      / real (confusion True True labels scores + confusion False False labels scores
                              + confusion False True labels scores + confusion True False labels scores)),
                r, f)"
    unfolding calculate_metrics_def Let_def by (simp only: acc r f sum.case)
  moreover have "confusion True True [True] [1/2] = 0 \<and> confusion True False [True] [1/2] = 1"
    by (simp add: confusion_def)
  moreover have "calculate_metrics [True] [1/2] = Inr (Some 0, Some 0, Some 0)"
    by (simp add: calculate_metrics_def accuracy_score_def recall_score_def f1_score_def
        count_pairs_def)
  ultimately show ?thesis by blast
qed

theorem accuracy_is_correct_fraction_witness:
  "length [False, True, True] = length [1/2, 1/2, 9/10 :: real] \<and> [False, True, True] \<noteq> []
   \<and> (\<exists>recall f1. calculate_metrics [False, True, True] [1/2, 1/2, 9/10] =
           Inr (Some (real (confusion True True [False, True, True] [1/2, 1/2, 9/10]
                            + confusion False False [False, True, True] [1/2, 1/2, 9/10])
                      / real (confusion True True [False, True, True] [1/2, 1/2, 9/10]
                              + confusion False False [False, True, True] [1/2, 1/2, 9/10]
                              + confusion False True [False, True, True] [1/2, 1/2, 9/10]
                              + confusion True False [False, True, True] [1/2, 1/2, 9/10])),
                recall, f1))
   \<and> calculate_metrics [False, True, True] [1/2, 1/2, 9/10] = Inr (Some (2/3), Some (1/2), Some (2/3))"
proof -
  have h1: "length [False, True, True] = length [1/2, 1/2, 9/10 :: real]" by simp
  have h2: "[False, True, True] \<noteq> []" by simp
  have v: "calculate_metrics [False, True, True] [1/2, 1/2, 9/10] = Inr (Some (2/3), Some (1/2), Some (2/3))"
    by (simp add: calculate_metrics_def accuracy_score_def recall_score_def f1_score_def
        count_pairs_def)
  show ?thesis
    using h1 h2 v accuracy_is_correct_fraction [OF h1 h2] by blast
qed

text \<open>
  C6 (as stated, refuted). On empty label and score sequences \<open>calculate_metrics\<close>
  raises nothing: it returns NaN for the accuracy and 0 for recall and F1.
\<close>

theorem empty_input_gives_placeholders:
  "calculate_metrics [] [] = Inr (None, Some 0, Some 0)"
  by (simp add: calculate_metrics_def accuracy_score_def recall_score_def f1_score_def
      count_pairs_def)

lemma roc_curve_mismatch:
  "length y_true \<noteq> length y_score \<Longrightarrow> roc_curve y_true y_score = Inl ValueError_inconsistent_samples"
  by (simp add: roc_curve_def binary_clf_curve_def)

text \<open>
  C6 (amended). With label and score sequences of different lengths, \<open>calculate_metrics\<close>
  and \<open>calculate_eer\<close> both fail with the library's \<open>ValueError\<close> and return no
  value; with empty sequences \<open>calculate_eer\<close> fails with a \<open>ValueError\<close> too.
\<close>

theorem invalid_input_errors:
  "(length y_true \<noteq> length y_pred \<longrightarrow>
      calculate_metrics y_true y_pred = Inl ValueError_inconsistent_samples
      \<and> calculate_eer y_true y_pred = Inl ValueError_inconsistent_samples)
   \<and> calculate_eer [] [] = Inl ValueError_pos_label"
proof -
  have a: "length y_true \<noteq> length y_pred \<longrightarrow>
      calculate_metrics y_true y_pred = Inl ValueError_inconsistent_samples"
    by (simp add: calculate_metrics_def accuracy_score_def)
  have b: "length y_true \<noteq> length y_pred \<longrightarrow>
      calculate_eer y_true y_pred = Inl ValueError_inconsistent_samples"
    by (simp add: calculate_eer_def roc_curve_mismatch)
  have c: "calculate_eer [] [] = Inl ValueError_pos_label"
    by (simp add: calculate_eer_def roc_curve_def binary_clf_curve_def)
  from a b c show ?thesis by blast
qed

theorem invalid_input_errors_witness:
  "length [True, False] \<noteq> length [1/2 :: real]
   \<and> calculate_metrics [True, False] [1/2] = Inl ValueError_inconsistent_samples
   \<and> calculate_eer [True, False] [1/2] = Inl ValueError_inconsistent_samples"
proof -
  have h: "length [True, False] \<noteq> length [1/2 :: real]" by simp
  show ?thesis
    using h invalid_input_errors [of "[True, False]" "[1/2]"] by blast
qed

subsection \<open>Facts about the ROC points\<close>

lemma length_cumsum_from: "length (cumsum_from a xs) = length xs"
  by (induction xs arbitrary: a) simp_all

lemma cumsum_from_nth:
  "i < length xs \<Longrightarrow> cumsum_from a xs ! i = a + sum_list (take (Suc i) xs)"
proof (induction xs arbitrary: a i)
  case Nil
  then show ?case by simp
next
  case (Cons x xs)
  show ?case
  proof (cases i)
    case 0
    then show ?thesis by simp
  next
    case (Suc k)
    with Cons.prems have "k < length xs" by simp
    from Cons.IH [OF this, of "a + x"] Suc show ?thesis by simp
  qed
qed

lemma indicator_sum_bounds:
  "\<forall>x \<in> set xs. (0::int) \<le> x \<and> x \<le> 1 \<Longrightarrow> 0 \<le> sum_list xs \<and> sum_list xs \<le> int (length xs)"
  by (induction xs) auto

lemma indicator_prefix_bounds:
  assumes "\<forall>x \<in> set b. (0::int) \<le> x \<and> x \<le> 1" and "k \<le> length b"
  shows "0 \<le> sum_list (take k b) \<and> sum_list (take k b) \<le> sum_list b
       \<and> 0 \<le> int k - sum_list (take k b)
       \<and> int k - sum_list (take k b) \<le> int (length b) - sum_list b"
proof -
  have split: "sum_list b = sum_list (take k b) + sum_list (drop k b)"
    by (metis append_take_drop_id sum_list_append)
  have t: "\<forall>x \<in> set (take k b). (0::int) \<le> x \<and> x \<le> 1"
    using assms(1) by (meson in_set_takeD)
  have d: "\<forall>x \<in> set (drop k b). (0::int) \<le> x \<and> x \<le> 1"
    using assms(1) by (meson in_set_dropD)
  have bt: "0 \<le> sum_list (take k b) \<and> sum_list (take k b) \<le> int (length (take k b))"
    using t by (rule indicator_sum_bounds)
  have bd: "0 \<le> sum_list (drop k b) \<and> sum_list (drop k b) \<le> int (length (drop k b))"
    using d by (rule indicator_sum_bounds)
  have lt: "length (take k b) = k" and ld: "int (length (drop k b)) = int (length b) - int k"
    using assms(2) by simp_all
  show ?thesis using split bt bd lt ld by linarith
qed

lemma sum_list_map_insort_key:
  fixes h :: "'a \<Rightarrow> int"
  shows "sum_list (map h (insort_key f x xs)) = h x + sum_list (map h xs)"
  by (induction xs) simp_all

lemma sum_list_map_sort_key:
  fixes h :: "'a \<Rightarrow> int"
  shows "sum_list (map h (sort_key f xs)) = sum_list (map h xs)"
  by (induction xs) (simp_all add: sum_list_map_insort_key)

lemma positives_sorted:
  assumes "length y_true = length y_score"
  shows "sum_list (map (\<lambda>t. if t then 1 else 0) (map fst (rev (sort_key snd (zip y_true y_score)))))
           = positives y_true"
proof -
  have "sum_list (map (\<lambda>t. if t then 1 else (0::int)) (map fst (rev (sort_key snd (zip y_true y_score)))))
      = sum_list (rev (map ((\<lambda>t. if t then 1 else 0) \<circ> fst) (sort_key snd (zip y_true y_score))))"
    by (simp add: rev_map)
  also have "\<dots> = sum_list (map ((\<lambda>t. if t then 1 else 0) \<circ> fst) (sort_key snd (zip y_true y_score)))"
    by (rule sum_list_rev)
  also have "\<dots> = sum_list (map ((\<lambda>t. if t then 1 else 0) \<circ> fst) (zip y_true y_score))"
    by (rule sum_list_map_sort_key)
  also have "\<dots> = sum_list (map (\<lambda>t. if t then 1 else 0) (map fst (zip y_true y_score)))"
    by simp
  also have "\<dots> = positives y_true"
    using assms by (simp add: positives_def)
  finally show ?thesis .
qed

lemma positives_ge1: "True \<in> set y_true \<Longrightarrow> 1 \<le> positives y_true"
  unfolding positives_def
proof (induction y_true)
  case Nil
  then show ?case by simp
next
  case (Cons t ts)
  have "0 \<le> sum_list (map (\<lambda>t. if t then 1 else (0::int)) ts)"
    by (rule conjunct1 [OF indicator_sum_bounds]) auto
  with Cons show ?case by (cases t) auto
qed

lemma negatives_ge1: "False \<in> set y_true \<Longrightarrow> 1 \<le> negatives y_true"
  unfolding negatives_def positives_def
proof (induction y_true)
  case Nil
  then show ?case by simp
next
  case (Cons t ts)
  have "sum_list (map (\<lambda>t. if t then 1 else (0::int)) ts) \<le> int (length (map (\<lambda>t. if t then 1 else (0::int)) ts))"
    by (rule conjunct2 [OF indicator_sum_bounds]) auto
  with Cons show ?case by (cases t) auto
qed

lemma positives_all_False: "\<forall>l \<in> set y_true. \<not> l \<Longrightarrow> positives y_true = 0"
  unfolding positives_def by (induction y_true) auto

lemma negatives_all_True: "\<forall>l \<in> set y_true. l \<Longrightarrow> negatives y_true = 0"
  unfolding negatives_def positives_def by (induction y_true) auto


lemma binary_clf_curve_counts:
  assumes len: "length y_true = length y_score" and ne: "y_true \<noteq> []"
  shows "\<exists>fps tps thr. binary_clf_curve y_true y_score = Inr (fps, tps, thr)
           \<and> length tps = length fps \<and> length thr = length fps \<and> fps \<noteq> []
           \<and> last fps = negatives y_true \<and> last tps = positives y_true
           \<and> (\<forall>x \<in> set fps. 0 \<le> x \<and> x \<le> negatives y_true)
           \<and> (\<forall>x \<in> set tps. 0 \<le> x \<and> x \<le> positives y_true)"
proof -
  define desc where "desc = rev (sort_key snd (zip y_true y_score))"
  define ys where "ys = map snd desc"
  define b :: "int list" where "b = map (\<lambda>t. if t then 1 else 0) (map fst desc)"
  define cs where "cs = stable_cumsum b"
  define n where "n = length y_true"
  define idxs where
    "idxs = filter (\<lambda>i. ys ! Suc i - ys ! i \<noteq> 0) [0 ..< length ys - 1] @ [length (map fst desc) - 1]"
  define fps where "fps = map (\<lambda>i. 1 + int i - cs ! i) idxs"
  define tps where "tps = map (\<lambda>i. cs ! i) idxs"
  have eq: "binary_clf_curve y_true y_score = Inr (fps, tps, map (\<lambda>i. ys ! i) idxs)"
    unfolding binary_clf_curve_def Let_def fps_def tps_def idxs_def cs_def b_def ys_def desc_def
    using len ne by simp
  have n_pos: "0 < n"
    using ne by (simp add: n_def)
  have ldesc: "length desc = n"
    using len by (simp add: desc_def n_def)
  have lb: "length b = n"
    by (simp add: b_def ldesc)
  have b01: "\<forall>x \<in> set b. 0 \<le> x \<and> x \<le> 1"
    by (auto simp add: b_def)
  have sumb: "sum_list b = positives y_true"
    unfolding b_def desc_def using len by (rule positives_sorted)
  have cs_nth: "cs ! i = sum_list (take (Suc i) b)" if "i < n" for i
    using that lb by (simp add: cs_def stable_cumsum_def cumsum_from_nth)
  have idx_lt: "\<forall>i \<in> set idxs. i < n"
    using n_pos by (auto simp add: idxs_def ys_def ldesc)
  have last_idx: "last idxs = n - 1"
    by (simp add: idxs_def ldesc)
  have bounds: "0 \<le> cs ! i \<and> cs ! i \<le> positives y_true
        \<and> 0 \<le> 1 + int i - cs ! i \<and> 1 + int i - cs ! i \<le> negatives y_true" if "i < n" for i
  proof -
    have "Suc i \<le> length b" using that lb by simp
    from indicator_prefix_bounds [OF b01 this] show ?thesis
      by (simp add: cs_nth [OF that] sumb lb negatives_def n_def)
  qed
  have full: "cs ! (n - 1) = positives y_true"
  proof -
    have "n - 1 < n" using n_pos by simp
    then have "cs ! (n - 1) = sum_list (take (Suc (n - 1)) b)" by (rule cs_nth)
    also have "Suc (n - 1) = n" using n_pos by simp
    finally show ?thesis by (simp add: lb sumb)
  qed
  have ne_idxs: "idxs \<noteq> []"
    by (simp add: idxs_def)
  have "last fps = 1 + int (n - 1) - cs ! (n - 1)"
    using ne_idxs by (simp add: fps_def last_map last_idx)
  also have "\<dots> = int n - positives y_true"
    using n_pos full by simp
  finally have lf: "last fps = negatives y_true"
    by (simp add: negatives_def n_def)
  have lt: "last tps = positives y_true"
    using ne_idxs full by (simp add: tps_def last_map last_idx)
  have bf: "\<forall>x \<in> set fps. 0 \<le> x \<and> x \<le> negatives y_true"
    using idx_lt bounds by (auto simp add: fps_def)
  have bt: "\<forall>x \<in> set tps. 0 \<le> x \<and> x \<le> positives y_true"
    using idx_lt bounds by (auto simp add: tps_def)
  have lens: "length tps = length fps \<and> length (map (\<lambda>i. ys ! i) idxs) = length fps \<and> fps \<noteq> []"
    using ne_idxs by (simp add: fps_def tps_def)
  from eq lens lf lt bf bt show ?thesis by blast
qed


lemma length_np_diff: "length (np_diff xs) = length xs - 1"
  by (simp add: np_diff_def)

lemma optimal_idxs_props:
  assumes "length tps = length fps" and "2 \<le> length fps"
  shows "optimal_idxs fps tps \<noteq> []
       \<and> (\<forall>i \<in> set (optimal_idxs fps tps). i < length fps)
       \<and> last (optimal_idxs fps tps) = length fps - 1"
proof -
  define m where "m = length fps"
  define mid where "mid = map (\<lambda>(a, b). a \<noteq> 0 \<or> b \<noteq> 0)
                          (zip (np_diff (np_diff fps)) (np_diff (np_diff tps)))"
  define mask where "mask = (True # mid) @ [True]"
  have lmid: "length mid = m - 2"
    using assms(1) by (simp add: mid_def length_np_diff m_def)
  have lmask: "length mask = m"
    using assms(2) by (simp add: mask_def lmid m_def)
  have opt: "optimal_idxs fps tps = filter (\<lambda>i. mask ! i) [0 ..< m]"
    unfolding optimal_idxs_def Let_def mask_def mid_def [symmetric]
    using lmask by (simp add: mask_def)
  have "length (True # mid) = m - 1"
    using assms(2) by (simp add: lmid m_def)
  then have top: "mask ! (m - 1) = True"
    unfolding mask_def by (metis nth_append_length)
  have "m = Suc (m - 1)"
    using assms(2) by (simp add: m_def)
  then have "[0 ..< m] = [0 ..< m - 1] @ [m - 1]"
    by (metis upt_Suc_append zero_le)
  then have split: "optimal_idxs fps tps = filter (\<lambda>i. mask ! i) [0 ..< m - 1] @ [m - 1]"
    using top by (simp add: opt)
  have a: "optimal_idxs fps tps \<noteq> []" and c: "last (optimal_idxs fps tps) = m - 1"
    by (simp_all add: split)
  have b: "\<forall>i \<in> set (optimal_idxs fps tps). i < m"
    by (simp add: opt)
  from a b c show ?thesis by (simp add: m_def)
qed

lemma keep_props:
  assumes "length tps = length fps" and "fps \<noteq> []"
  defines "keep \<equiv> (if length fps > 2 then optimal_idxs fps tps else [0 ..< length fps])"
  shows "keep \<noteq> [] \<and> (\<forall>i \<in> set keep. i < length fps) \<and> last keep = length fps - 1"
proof (cases "length fps > 2")
  case True
  then have "2 \<le> length fps" by simp
  from optimal_idxs_props [OF assms(1) this] True show ?thesis
    by (simp add: keep_def)
next
  case False
  have pos: "0 < length fps" using assms(2) by simp
  then have "last [0 ..< length fps] = length fps - 1"
    by (simp add: last_upt)
  with False pos show ?thesis
    by (simp add: keep_def)
qed

lemma roc_curve_counts:
  assumes len: "length y_true = length y_score" and ne: "y_true \<noteq> []"
  shows "\<exists>fps1 tps1 thr. roc_curve y_true y_score = Inr (rates fps1, rates tps1, thr)
           \<and> length tps1 = length fps1 \<and> fps1 \<noteq> [] \<and> tps1 \<noteq> []
           \<and> last fps1 = negatives y_true \<and> last tps1 = positives y_true
           \<and> (\<forall>x \<in> set fps1. 0 \<le> x \<and> x \<le> negatives y_true)
           \<and> (\<forall>x \<in> set tps1. 0 \<le> x \<and> x \<le> positives y_true)"
proof -
  obtain fps tps thr where bc: "binary_clf_curve y_true y_score = Inr (fps, tps, thr)"
    and lt: "length tps = length fps" and fne: "fps \<noteq> []"
    and lastf: "last fps = negatives y_true" and lastt: "last tps = positives y_true"
    and bf: "\<forall>x \<in> set fps. 0 \<le> x \<and> x \<le> negatives y_true"
    and bt: "\<forall>x \<in> set tps. 0 \<le> x \<and> x \<le> positives y_true"
    using binary_clf_curve_counts [OF len ne] by blast
  define keep where "keep = (if length fps > 2 then optimal_idxs fps tps else [0 ..< length fps])"
  define fps1 where "fps1 = 0 # map (\<lambda>i. fps ! i) keep"
  define tps1 where "tps1 = 0 # map (\<lambda>i. tps ! i) keep"
  have kp: "keep \<noteq> [] \<and> (\<forall>i \<in> set keep. i < length fps) \<and> last keep = length fps - 1"
    unfolding keep_def using lt fne by (rule keep_props)
  have kne: "keep \<noteq> []" and klt: "\<forall>i \<in> set keep. i < length fps"
    and klast: "last keep = length fps - 1"
    using kp by blast+
  have "roc_curve y_true y_score =
      (let keep = (if length fps > 2 then optimal_idxs fps tps else [0 ..< length fps]);
           fps1 = 0 # map (\<lambda>i. fps ! i) keep;
           tps1 = 0 # map (\<lambda>i. tps ! i) keep;
           thresholds1 = PosInf # map (\<lambda>i. Finite (thr ! i)) keep
       in Inr (rates fps1, rates tps1, thresholds1))"
    unfolding roc_curve_def by (simp only: bc sum.case prod.case)
  then have eq: "roc_curve y_true y_score =
      Inr (rates fps1, rates tps1, PosInf # map (\<lambda>i. Finite (thr ! i)) keep)"
    unfolding Let_def fps1_def tps1_def keep_def .
  have tne: "tps \<noteq> []" using lt fne by auto
  have n0: "0 \<le> negatives y_true" using bf fne lastf last_in_set by metis
  have p0: "0 \<le> positives y_true" using bt tne lastt last_in_set by metis
  have "last fps1 = last (map (\<lambda>i. fps ! i) keep)"
    using kne by (simp add: fps1_def)
  also have "\<dots> = fps ! (last keep)"
    using kne by (rule last_map)
  also have "\<dots> = last fps"
    unfolding klast using fne by (rule last_conv_nth [symmetric])
  finally have l1: "last fps1 = negatives y_true"
    by (simp only: lastf)
  have "last tps1 = last (map (\<lambda>i. tps ! i) keep)"
    using kne by (simp add: tps1_def)
  also have "\<dots> = tps ! (last keep)"
    using kne by (rule last_map)
  also have "\<dots> = last tps"
    unfolding klast lt [symmetric] using tne by (rule last_conv_nth [symmetric])
  finally have l2: "last tps1 = positives y_true"
    by (simp only: lastt)
  have b1: "\<forall>x \<in> set fps1. 0 \<le> x \<and> x \<le> negatives y_true"
    using klt bf n0 by (auto simp add: fps1_def)
  have b2: "\<forall>x \<in> set tps1. 0 \<le> x \<and> x \<le> positives y_true"
    using klt bt p0 lt by (auto simp add: tps1_def)
  have ln: "length tps1 = length fps1 \<and> fps1 \<noteq> [] \<and> tps1 \<noteq> []"
    by (simp add: fps1_def tps1_def)
  from eq ln l1 l2 b1 b2 show ?thesis by blast
qed

subsection \<open>Facts about the first smallest gap\<close>

lemma nanargmin_from_all_nan:
  "\<forall>x \<in> set xs. x = None \<Longrightarrow> nanargmin_from i best xs = best"
  by (induction xs arbitrary: i) simp_all

lemma nanargmin_all_nan:
  "\<forall>x \<in> set xs. x = None \<Longrightarrow> nanargmin xs = Inl ValueError_all_nan"
  by (simp add: nanargmin_def nanargmin_from_all_nan)

lemma nanargmin_from_Some:
  "j < i \<Longrightarrow>
     \<exists>k m'. nanargmin_from i (Some (j, m)) (map Some vs) = Some (k, m')
       \<and> m' \<le> m \<and> (\<forall>t < length vs. m' \<le> vs ! t)
       \<and> ((k = j \<and> m' = m)
          \<or> (i \<le> k \<and> k < i + length vs \<and> vs ! (k - i) = m' \<and> m' < m
              \<and> (\<forall>t < k - i. m' < vs ! t)))"
proof (induction vs arbitrary: i j m)
  case Nil
  then show ?case by simp
next
  case (Cons v vs)
  show ?case
  proof (cases "v < m")
    case True
    have "i < Suc i" by simp
    from Cons.IH [OF this, of v] obtain k m' where
      r: "nanargmin_from (Suc i) (Some (i, v)) (map Some vs) = Some (k, m')"
      and le: "m' \<le> v" and all: "\<forall>t < length vs. m' \<le> vs ! t"
      and d: "(k = i \<and> m' = v)
          \<or> (Suc i \<le> k \<and> k < Suc i + length vs \<and> vs ! (k - Suc i) = m' \<and> m' < v
              \<and> (\<forall>t < k - Suc i. m' < vs ! t))"
      by blast
    have run: "nanargmin_from i (Some (j, m)) (map Some (v # vs)) = Some (k, m')"
      using True r by simp
    have a: "m' \<le> m" using le True by simp
    have b: "\<forall>t < length (v # vs). m' \<le> (v # vs) ! t"
    proof (intro allI impI)
      fix t assume "t < length (v # vs)"
      then show "m' \<le> (v # vs) ! t"
        using le all by (cases t) simp_all
    qed
    have c: "i \<le> k \<and> k < i + length (v # vs) \<and> (v # vs) ! (k - i) = m' \<and> m' < m
              \<and> (\<forall>t < k - i. m' < (v # vs) ! t)"
    proof (cases "k = i \<and> m' = v")
      case True
      then show ?thesis using \<open>v < m\<close> by simp
    next
      case False
      with d have d2: "Suc i \<le> k" "k < Suc i + length vs" "vs ! (k - Suc i) = m'" "m' < v"
          "\<forall>t < k - Suc i. m' < vs ! t"
        by blast+
      have ki: "k - i = Suc (k - Suc i)" using d2(1) by simp
      have "\<forall>t < k - i. m' < (v # vs) ! t"
      proof (intro allI impI)
        fix t assume "t < k - i"
        then show "m' < (v # vs) ! t"
          using d2(4) d2(5) ki by (cases t) simp_all
      qed
      then show ?thesis
        using d2 True ki by simp
    qed
    from run a b c show ?thesis by blast
  next
    case False
    have "j < Suc i" using Cons.prems by simp
    from Cons.IH [OF this, of m] obtain k m' where
      r: "nanargmin_from (Suc i) (Some (j, m)) (map Some vs) = Some (k, m')"
      and le: "m' \<le> m" and all: "\<forall>t < length vs. m' \<le> vs ! t"
      and d: "(k = j \<and> m' = m)
          \<or> (Suc i \<le> k \<and> k < Suc i + length vs \<and> vs ! (k - Suc i) = m' \<and> m' < m
              \<and> (\<forall>t < k - Suc i. m' < vs ! t))"
      by blast
    have run: "nanargmin_from i (Some (j, m)) (map Some (v # vs)) = Some (k, m')"
      using False r by simp
    have mv: "m \<le> v" using False by simp
    have b: "\<forall>t < length (v # vs). m' \<le> (v # vs) ! t"
    proof (intro allI impI)
      fix t assume "t < length (v # vs)"
      then show "m' \<le> (v # vs) ! t"
        using le mv all by (cases t) simp_all
    qed
    have c: "(k = j \<and> m' = m)
          \<or> (i \<le> k \<and> k < i + length (v # vs) \<and> (v # vs) ! (k - i) = m' \<and> m' < m
              \<and> (\<forall>t < k - i. m' < (v # vs) ! t))"
    proof (cases "k = j \<and> m' = m")
      case True
      then show ?thesis by simp
    next
      case nf: False
      with d have d2: "Suc i \<le> k" "k < Suc i + length vs" "vs ! (k - Suc i) = m'" "m' < m"
          "\<forall>t < k - Suc i. m' < vs ! t"
        by blast+
      have ki: "k - i = Suc (k - Suc i)" using d2(1) by simp
      have "\<forall>t < k - i. m' < (v # vs) ! t"
      proof (intro allI impI)
        fix t assume "t < k - i"
        then show "m' < (v # vs) ! t"
          using d2(4) d2(5) mv ki by (cases t) simp_all
      qed
      then show ?thesis
        using d2 ki by simp
    qed
    from run le b c show ?thesis by blast
  qed
qed

lemma nanargmin_first_min:
  assumes "vs \<noteq> []"
  shows "\<exists>k. nanargmin (map Some vs) = Inr k \<and> k < length vs
           \<and> (\<forall>t < length vs. vs ! k \<le> vs ! t) \<and> (\<forall>t < k. vs ! k < vs ! t)"
proof -
  obtain v ws where vs: "vs = v # ws"
    using assms by (cases vs) auto
  have "(0::nat) < Suc 0" by simp
  from nanargmin_from_Some [OF this, of v ws] obtain k m' where
    r: "nanargmin_from (Suc 0) (Some (0, v)) (map Some ws) = Some (k, m')"
    and le: "m' \<le> v" and all: "\<forall>t < length ws. m' \<le> ws ! t"
    and d: "(k = 0 \<and> m' = v)
          \<or> (Suc 0 \<le> k \<and> k < Suc 0 + length ws \<and> ws ! (k - Suc 0) = m' \<and> m' < v
              \<and> (\<forall>t < k - Suc 0. m' < ws ! t))"
    by blast
  have run: "nanargmin (map Some vs) = Inr k"
    by (simp add: nanargmin_def vs r)
  have val: "k < length vs \<and> vs ! k = m' \<and> (\<forall>t < k. m' < vs ! t)"
  proof (cases "k = 0 \<and> m' = v")
    case True
    then show ?thesis by (simp add: vs)
  next
    case False
    with d have d2: "Suc 0 \<le> k" "k < Suc 0 + length ws" "ws ! (k - Suc 0) = m'" "m' < v"
        "\<forall>t < k - Suc 0. m' < ws ! t"
      by blast+
    have "\<forall>t < k. m' < vs ! t"
    proof (intro allI impI)
      fix t assume "t < k"
      then show "m' < vs ! t"
        using d2(4) d2(5) by (cases t) (simp_all add: vs)
    qed
    then show ?thesis
      using d2 by (simp add: vs nth_Cons')
  qed
  have low: "\<forall>t < length vs. m' \<le> vs ! t"
  proof (intro allI impI)
    fix t assume "t < length vs"
    then show "m' \<le> vs ! t"
      using le all by (cases t) (simp_all add: vs)
  qed
  from run val low show ?thesis by blast
qed

subsection \<open>Facts about the equal error rate\<close>

lemma rates_nan: "last ps \<le> 0 \<Longrightarrow> rates ps = replicate (length ps) None"
  by (simp add: rates_def)

lemma gaps_nan_fpr:
  "\<forall>x \<in> set fpr. x = None \<Longrightarrow>
     \<forall>g \<in> set (map (\<lambda>(a, b). py_abs (py_sub a b)) (zip fnr fpr)). g = None"
proof
  fix g
  assume nan: "\<forall>x \<in> set fpr. x = None"
    and "g \<in> set (map (\<lambda>(a, b). py_abs (py_sub a b)) (zip fnr fpr))"
  then obtain a b where ab: "(a, b) \<in> set (zip fnr fpr)" and g: "g = py_abs (py_sub a b)"
    by auto
  from ab have "b \<in> set fpr" by (rule set_zip_rightD)
  with nan have "b = None" by blast
  then show "g = None"
    by (simp add: g py_sub_def py_abs_def split: option.split)
qed

lemma gaps_nan_tpr:
  "\<forall>x \<in> set tpr. x = None \<Longrightarrow>
     \<forall>g \<in> set (map (\<lambda>(a, b). py_abs (py_sub a b)) (zip (map (py_sub (Some 1)) tpr) fpr)). g = None"
proof
  fix g
  assume nan: "\<forall>x \<in> set tpr. x = None"
    and "g \<in> set (map (\<lambda>(a, b). py_abs (py_sub a b)) (zip (map (py_sub (Some 1)) tpr) fpr))"
  then obtain a b where ab: "(a, b) \<in> set (zip (map (py_sub (Some 1)) tpr) fpr)"
    and g: "g = py_abs (py_sub a b)"
    by auto
  from ab have "a \<in> set (map (py_sub (Some 1)) tpr)" by (rule set_zip_leftD)
  then obtain t where "t \<in> set tpr" and a: "a = py_sub (Some 1) t" by auto
  with nan have "t = None" by blast
  then show "g = None"
    by (simp add: g a py_sub_def py_abs_def)
qed

lemma calculate_eer_unfold:
  "roc_curve y_true y_pred = Inr (fpr, tpr, thr) \<Longrightarrow>
     calculate_eer y_true y_pred =
       (case nanargmin (map (\<lambda>(a, b). py_abs (py_sub a b)) (zip (map (py_sub (Some 1)) tpr) fpr)) of
          Inl e \<Rightarrow> Inl e
        | Inr i \<Rightarrow> Inr (py_half (py_add (fpr ! i) (map (py_sub (Some 1)) tpr ! i))))"
  by (simp add: calculate_eer_def Let_def)

text \<open>
  C7. For a non-empty label sequence whose entries all belong to one class, with as many
  scores, \<open>calculate_eer\<close> returns no number: the rate of the absent class is an array
  of NaN, every gap is NaN, and \<open>nanargmin\<close> raises \<open>ValueError\<close>.
\<close>

theorem single_class_eer_fails:
  assumes "y_true \<noteq> []" and "length y_pred = length y_true"
    and "(\<forall>l \<in> set y_true. l) \<or> (\<forall>l \<in> set y_true. \<not> l)"
  shows "calculate_eer y_true y_pred = Inl ValueError_all_nan"
proof -
  have len: "length y_true = length y_pred" using assms(2) by simp
  obtain fps1 tps1 thr where roc: "roc_curve y_true y_pred = Inr (rates fps1, rates tps1, thr)"
    and lf: "last fps1 = negatives y_true" and lt: "last tps1 = positives y_true"
    using roc_curve_counts [OF len assms(1)] by blast
  have "\<forall>g \<in> set (map (\<lambda>(a, b). py_abs (py_sub a b))
            (zip (map (py_sub (Some 1)) (rates tps1)) (rates fps1))). g = None"
  proof (cases "\<forall>l \<in> set y_true. l")
    case True
    then have "last fps1 \<le> 0" by (simp add: lf negatives_all_True)
    then have "\<forall>x \<in> set (rates fps1). x = None" by (simp add: rates_nan)
    then show ?thesis by (rule gaps_nan_fpr)
  next
    case False
    with assms(3) have "\<forall>l \<in> set y_true. \<not> l" by blast
    then have "last tps1 \<le> 0" by (simp add: lt positives_all_False)
    then have "\<forall>x \<in> set (rates tps1). x = None" by (simp add: rates_nan)
    then show ?thesis by (rule gaps_nan_tpr)
  qed
  then have "nanargmin (map (\<lambda>(a, b). py_abs (py_sub a b))
            (zip (map (py_sub (Some 1)) (rates tps1)) (rates fps1))) = Inl ValueError_all_nan"
    by (rule nanargmin_all_nan)
  then show ?thesis
    by (simp add: calculate_eer_unfold [OF roc])
qed

theorem single_class_eer_fails_witness:
  "[True, True] \<noteq> [] \<and> length [9/10, 1/2 :: real] = length [True, True]
   \<and> ((\<forall>l \<in> set [True, True]. l) \<or> (\<forall>l \<in> set [True, True]. \<not> l))
   \<and> calculate_eer [True, True] [9/10, 1/2] = Inl ValueError_all_nan
   \<and> calculate_eer [False] [3/10] = Inl ValueError_all_nan"
proof -
  have h1: "[True, True] \<noteq> []" and h2: "length [9/10, 1/2 :: real] = length [True, True]"
    and h3: "(\<forall>l \<in> set [True, True]. l) \<or> (\<forall>l \<in> set [True, True]. \<not> l)"
    by simp_all
  have g1: "[False] \<noteq> []" and g2: "length [3/10 :: real] = length [False]"
    and g3: "(\<forall>l \<in> set [False]. l) \<or> (\<forall>l \<in> set [False]. \<not> l)"
    by simp_all
  show ?thesis
    using h1 h2 h3 single_class_eer_fails [OF h1 h2 h3] single_class_eer_fails [OF g1 g2 g3]
    by blast
qed

subsection \<open>Facts about the example roundings\<close>

lemma round_half_even_bounds:
  "\<lfloor>x\<rfloor> \<le> round_half_even x \<and> round_half_even x \<le> \<lfloor>x\<rfloor> + 1"
  by (simp add: round_half_even_def Let_def)

lemma round_half_even_mono:
  assumes "x \<le> y"
  shows "round_half_even x \<le> round_half_even y"
proof (cases "\<lfloor>x\<rfloor> < \<lfloor>y\<rfloor>")
  case True
  have "round_half_even x \<le> \<lfloor>x\<rfloor> + 1"
    using round_half_even_bounds [of x] by simp
  also have "\<dots> \<le> \<lfloor>y\<rfloor>" using True by simp
  also have "\<dots> \<le> round_half_even y"
    using round_half_even_bounds [of y] by simp
  finally show ?thesis .
next
  case False
  moreover have "\<lfloor>x\<rfloor> \<le> \<lfloor>y\<rfloor>" using assms by (rule floor_mono)
  ultimately have eq: "\<lfloor>x\<rfloor> = \<lfloor>y\<rfloor>" by simp
  have "x - real_of_int \<lfloor>y\<rfloor> \<le> y - real_of_int \<lfloor>y\<rfloor>" using assms by simp
  then show ?thesis
    unfolding round_half_even_def Let_def eq by (auto split: if_splits)
qed

lemma round_to_grid_mono: "x \<le> y \<Longrightarrow> round_to_grid k x \<le> round_to_grid k y"
proof -
  assume "x \<le> y"
  then have "x * 2 ^ k \<le> y * 2 ^ k" by simp
  then have "round_half_even (x * 2 ^ k) \<le> round_half_even (y * 2 ^ k)"
    by (rule round_half_even_mono)
  then show ?thesis by (simp add: round_to_grid_def divide_right_mono)
qed

lemma round_double_52n: "x \<le> - 1 \<Longrightarrow> round_double x = round_to_grid 52 x"
  by (simp add: round_double_def abs_if)

lemma round_double_53n: "- 1 < x \<Longrightarrow> x \<le> - (1/2) \<Longrightarrow> round_double x = round_to_grid 53 x"
  by (simp add: round_double_def abs_if)

lemma round_double_54: "- (1/2) < x \<Longrightarrow> x < 1/2 \<Longrightarrow> round_double x = round_to_grid 54 x"
  by (simp add: round_double_def abs_if)

lemma round_double_53p: "1/2 \<le> x \<Longrightarrow> x < 1 \<Longrightarrow> round_double x = round_to_grid 53 x"
  by (simp add: round_double_def abs_if)

lemma round_double_52p: "1 \<le> x \<Longrightarrow> round_double x = round_to_grid 52 x"
  by (simp add: round_double_def abs_if)

lemma grid_bounds:
  assumes "round_to_grid k c = c"
  shows "(x \<le> c \<longrightarrow> round_to_grid k x \<le> c) \<and> (c \<le> x \<longrightarrow> c \<le> round_to_grid k x)"
  using assms round_to_grid_mono [of x c k] round_to_grid_mono [of c x k] by auto

lemma grid_fix:
  "round_to_grid 52 (- 1) = - 1" "round_to_grid 52 (- (1/2)) = - (1/2)"
  "round_to_grid 52 (1/2) = 1/2" "round_to_grid 52 1 = 1"
  "round_to_grid 53 (- 1) = - 1" "round_to_grid 53 (- (1/2)) = - (1/2)"
  "round_to_grid 53 (1/2) = 1/2" "round_to_grid 53 1 = 1"
  "round_to_grid 54 (- 1) = - 1" "round_to_grid 54 (- (1/2)) = - (1/2)"
  "round_to_grid 54 (1/2) = 1/2" "round_to_grid 54 1 = 1"
  by (simp_all add: round_to_grid_def round_half_even_def)

lemma round_double_is_grid:
  "round_double x = round_to_grid 52 x \<or> round_double x = round_to_grid 53 x
   \<or> round_double x = round_to_grid 54 x"
  by (simp add: round_double_def)

lemma round_double_bounds:
  assumes "c = - 1 \<or> c = - (1/2) \<or> c = 1/2 \<or> c = 1"
  shows "(x \<le> c \<longrightarrow> round_double x \<le> c) \<and> (c \<le> x \<longrightarrow> c \<le> round_double x)"
proof -
  have fixed: "round_to_grid 52 c = c \<and> round_to_grid 53 c = c \<and> round_to_grid 54 c = c"
    using assms
  proof (elim disjE)
    assume "c = - 1"
    then show ?thesis by (simp only: grid_fix)
  next
    assume "c = - (1/2)"
    then show ?thesis by (simp only: grid_fix)
  next
    assume "c = 1/2"
    then show ?thesis by (simp only: grid_fix)
  next
    assume "c = 1"
    then show ?thesis by (simp only: grid_fix)
  qed
  have f52: "round_to_grid 52 c = c" and f53: "round_to_grid 53 c = c"
    and f54: "round_to_grid 54 c = c"
    using fixed by blast+
  note grid_bounds [OF f52, of x] grid_bounds [OF f53, of x] grid_bounds [OF f54, of x]
  then show ?thesis
    using round_double_is_grid [of x] by metis
qed

lemma round_double_mono: "mono round_double"
proof (rule monoI)
  fix x y :: real
  assume xy: "x \<le> y"
  have x1: "(x \<le> - 1 \<longrightarrow> round_double x \<le> - 1) \<and> (- 1 \<le> x \<longrightarrow> - 1 \<le> round_double x)"
    and x2: "(x \<le> - (1/2) \<longrightarrow> round_double x \<le> - (1/2))
             \<and> (- (1/2) \<le> x \<longrightarrow> - (1/2) \<le> round_double x)"
    and x3: "(x \<le> 1/2 \<longrightarrow> round_double x \<le> 1/2) \<and> (1/2 \<le> x \<longrightarrow> 1/2 \<le> round_double x)"
    and x4: "(x \<le> 1 \<longrightarrow> round_double x \<le> 1) \<and> (1 \<le> x \<longrightarrow> 1 \<le> round_double x)"
    by (rule round_double_bounds, simp)+
  have y1: "(y \<le> - 1 \<longrightarrow> round_double y \<le> - 1) \<and> (- 1 \<le> y \<longrightarrow> - 1 \<le> round_double y)"
    and y2: "(y \<le> - (1/2) \<longrightarrow> round_double y \<le> - (1/2))
             \<and> (- (1/2) \<le> y \<longrightarrow> - (1/2) \<le> round_double y)"
    and y3: "(y \<le> 1/2 \<longrightarrow> round_double y \<le> 1/2) \<and> (1/2 \<le> y \<longrightarrow> 1/2 \<le> round_double y)"
    and y4: "(y \<le> 1 \<longrightarrow> round_double y \<le> 1) \<and> (1 \<le> y \<longrightarrow> 1 \<le> round_double y)"
    by (rule round_double_bounds, simp)+
  consider (a) "y \<le> - 1" | (b) "x \<le> - 1" "- 1 < y"
    | (c) "- 1 < x" "y \<le> - (1/2)" | (d) "- 1 < x" "x \<le> - (1/2)" "- (1/2) < y"
    | (e) "- (1/2) < x" "y < 1/2" | (f) "- (1/2) < x" "x < 1/2" "1/2 \<le> y"
    | (g) "1/2 \<le> x" "y < 1" | (h) "1/2 \<le> x" "x < 1" "1 \<le> y"
    | (i) "1 \<le> x"
    by linarith
  then show "round_double x \<le> round_double y"
  proof cases
    case a
    then have "x \<le> - 1" using xy by linarith
    then show ?thesis
      using a xy by (simp add: round_double_52n round_to_grid_mono)
  next
    case b
    with x1 y1 show ?thesis by linarith
  next
    case c
    then have "x \<le> - (1/2)" "- 1 < y" using xy by linarith+
    then show ?thesis
      using c xy by (simp add: round_double_53n round_to_grid_mono)
  next
    case d
    with x2 y2 show ?thesis by linarith
  next
    case e
    then have "x < 1/2" "- (1/2) < y" using xy by linarith+
    then show ?thesis
      using e xy by (simp add: round_double_54 round_to_grid_mono)
  next
    case f
    with x3 y3 show ?thesis by linarith
  next
    case g
    then have "x < 1" "1/2 \<le> y" using xy by linarith+
    then show ?thesis
      using g xy by (simp add: round_double_53p round_to_grid_mono)
  next
    case h
    with x4 y4 show ?thesis by linarith
  next
    case i
    then have "1 \<le> y" using xy by linarith
    then show ?thesis
      using i xy by (simp add: round_double_52p round_to_grid_mono)
  qed
qed

lemma round_double_fix:
  "round_double 0 = 0" "round_double 1 = 1" "round_double 2 = 2"
  by (simp_all add: round_double_def round_to_grid_def round_half_even_def)

subsection \<open>Facts about the equal error rate in double precision\<close>

lemma roc_curve_fp_counts:
  assumes len: "length y_true = length y_score" and ne: "y_true \<noteq> []"
  shows "\<exists>fps1 tps1 thr. roc_curve_fp rnd y_true y_score
             = Inr (rates_fp rnd fps1, rates_fp rnd tps1, thr)
           \<and> length tps1 = length fps1 \<and> fps1 \<noteq> [] \<and> tps1 \<noteq> []
           \<and> last fps1 = negatives y_true \<and> last tps1 = positives y_true
           \<and> (\<forall>x \<in> set fps1. 0 \<le> x \<and> x \<le> negatives y_true)
           \<and> (\<forall>x \<in> set tps1. 0 \<le> x \<and> x \<le> positives y_true)"
proof -
  obtain fps tps thr where bc: "binary_clf_curve y_true y_score = Inr (fps, tps, thr)"
    and lt: "length tps = length fps" and fne: "fps \<noteq> []"
    and lastf: "last fps = negatives y_true" and lastt: "last tps = positives y_true"
    and bf: "\<forall>x \<in> set fps. 0 \<le> x \<and> x \<le> negatives y_true"
    and bt: "\<forall>x \<in> set tps. 0 \<le> x \<and> x \<le> positives y_true"
    using binary_clf_curve_counts [OF len ne] by blast
  define keep where "keep = (if length fps > 2 then optimal_idxs fps tps else [0 ..< length fps])"
  define fps1 where "fps1 = 0 # map (\<lambda>i. fps ! i) keep"
  define tps1 where "tps1 = 0 # map (\<lambda>i. tps ! i) keep"
  have kp: "keep \<noteq> [] \<and> (\<forall>i \<in> set keep. i < length fps) \<and> last keep = length fps - 1"
    unfolding keep_def using lt fne by (rule keep_props)
  have kne: "keep \<noteq> []" and klt: "\<forall>i \<in> set keep. i < length fps"
    and klast: "last keep = length fps - 1"
    using kp by blast+
  have "roc_curve_fp rnd y_true y_score =
      (let keep = (if length fps > 2 then optimal_idxs fps tps else [0 ..< length fps]);
           fps1 = 0 # map (\<lambda>i. fps ! i) keep;
           tps1 = 0 # map (\<lambda>i. tps ! i) keep;
           thresholds1 = PosInf # map (\<lambda>i. Finite (thr ! i)) keep
       in Inr (rates_fp rnd fps1, rates_fp rnd tps1, thresholds1))"
    unfolding roc_curve_fp_def by (simp only: bc sum.case prod.case)
  then have eq: "roc_curve_fp rnd y_true y_score =
      Inr (rates_fp rnd fps1, rates_fp rnd tps1, PosInf # map (\<lambda>i. Finite (thr ! i)) keep)"
    unfolding Let_def fps1_def tps1_def keep_def .
  have tne: "tps \<noteq> []" using lt fne by auto
  have n0: "0 \<le> negatives y_true" using bf fne lastf last_in_set by metis
  have p0: "0 \<le> positives y_true" using bt tne lastt last_in_set by metis
  have "last fps1 = last (map (\<lambda>i. fps ! i) keep)"
    using kne by (simp add: fps1_def)
  also have "\<dots> = fps ! (last keep)"
    using kne by (rule last_map)
  also have "\<dots> = last fps"
    unfolding klast using fne by (rule last_conv_nth [symmetric])
  finally have l1: "last fps1 = negatives y_true"
    by (simp only: lastf)
  have "last tps1 = last (map (\<lambda>i. tps ! i) keep)"
    using kne by (simp add: tps1_def)
  also have "\<dots> = tps ! (last keep)"
    using kne by (rule last_map)
  also have "\<dots> = last tps"
    unfolding klast lt [symmetric] using tne by (rule last_conv_nth [symmetric])
  finally have l2: "last tps1 = positives y_true"
    by (simp only: lastt)
  have b1: "\<forall>x \<in> set fps1. 0 \<le> x \<and> x \<le> negatives y_true"
    using klt bf n0 by (auto simp add: fps1_def)
  have b2: "\<forall>x \<in> set tps1. 0 \<le> x \<and> x \<le> positives y_true"
    using klt bt p0 lt by (auto simp add: tps1_def)
  have ln: "length tps1 = length fps1 \<and> fps1 \<noteq> [] \<and> tps1 \<noteq> []"
    by (simp add: fps1_def tps1_def)
  from eq ln l1 l2 b1 b2 show ?thesis by blast
qed

lemma rates_fp_defined:
  "0 < last ps \<Longrightarrow>
     rates_fp rnd ps = map Some (map (\<lambda>p. rnd (real_of_int p / real_of_int (last ps))) ps)"
  by (simp add: rates_fp_def)

lemma gaps_fp_defined:
  "length tpr = length fpr \<Longrightarrow>
     map (\<lambda>(a, b). py_abs (py_sub_fp rnd a b))
         (zip (map (py_sub_fp rnd (Some 1)) (map Some tpr)) (map Some fpr))
       = map Some (map (\<lambda>(t, f). \<bar>rnd (rnd (1 - t) - f)\<bar>) (zip tpr fpr))"
  by (induction tpr fpr rule: list_induct2) (simp_all add: py_sub_fp_def py_sub_def py_abs_def)

lemma calculate_eer_fp_unfold:
  "roc_curve_fp rnd y_true y_pred = Inr (fpr, tpr, thr) \<Longrightarrow>
     calculate_eer_fp rnd y_true y_pred =
       (case nanargmin (map (\<lambda>(a, b). py_abs (py_sub_fp rnd a b))
                            (zip (map (py_sub_fp rnd (Some 1)) tpr) fpr)) of
          Inl e \<Rightarrow> Inl e
        | Inr i \<Rightarrow> Inr (py_half_fp rnd (py_add_fp rnd (fpr ! i)
                                           (map (py_sub_fp rnd (Some 1)) tpr ! i))))"
  by (simp add: calculate_eer_fp_def Let_def)

lemma rounded_unit_interval:
  assumes "mono rnd" and "rnd 0 = 0" and "rnd 1 = 1" and "0 \<le> x" and "x \<le> 1"
  shows "0 \<le> rnd x \<and> rnd x \<le> 1"
  using assms monoD [OF assms(1), of 0 x] monoD [OF assms(1), of x 1] by simp

text \<open>With exact arithmetic the computation is the one defined without rounding.\<close>

lemma rates_fp_exact: "rates_fp (\<lambda>x. x) = rates"
  by (rule ext) (simp add: rates_fp_def rates_def)

lemma roc_curve_fp_exact: "roc_curve_fp (\<lambda>x. x) y_true y_score = roc_curve y_true y_score"
  unfolding roc_curve_fp_def roc_curve_def rates_fp_exact ..

lemma py_fp_exact:
  "py_sub_fp (\<lambda>x. x) = py_sub" "py_add_fp (\<lambda>x. x) = py_add" "py_half_fp (\<lambda>x. x) = py_half"
  by (rule ext, rule ext, simp add: py_sub_fp_def option.map_ident,
      rule ext, rule ext, simp add: py_add_fp_def option.map_ident,
      rule ext, simp add: py_half_fp_def option.map_ident)

lemma calculate_eer_fp_exact:
  "calculate_eer_fp (\<lambda>x. x) y_true y_pred = calculate_eer y_true y_pred"
  unfolding calculate_eer_fp_def calculate_eer_def roc_curve_fp_exact py_fp_exact ..

lemmas eer_fp_eval = calculate_eer_fp_def roc_curve_fp_def binary_clf_curve_def stable_cumsum_def
  optimal_idxs_def np_diff_def rates_fp_def nanargmin_def py_sub_fp_def py_add_fp_def py_half_fp_def
  py_sub_def py_abs_def py_add_def py_half_def round_double_def round_to_grid_def round_half_even_def
  Let_def upt_conv_Cons

text \<open>
  C2 (as stated, refuted). With labels 1, 0, 0, 1 and scores 0.875, 0.75, 0.625, 0.125
  the operating point at threshold 0.75, where FPR = FNR = 1/2, lies on a straight
  segment of the curve and is not among the points \<open>roc_curve\<close> returns;
  \<open>calculate_eer\<close> gives 1/4, the sweep over every operating point gives 1/2. With
  scores 0.875, 0.5, 0.5, 0.125 no point is dropped and the gaps at thresholds 0.875 and
  0.5 tie: the first index is the higher threshold and gives 1/4, the lowest-threshold
  point gives 3/4. Every number in these two computations is a double, so nothing is
  rounded.
\<close>

theorem eer_differs_from_full_sweep:
  "roc_curve_fp round_double [True, False, False, True] [7/8, 3/4, 5/8, 1/8] =
     Inr ([Some 0, Some 0, Some 1, Some 1], [Some 0, Some (1/2), Some (1/2), Some 1],
          [PosInf, Finite (7/8), Finite (5/8), Finite (1/8)])
   \<and> operating_point [True, False, False, True] [7/8, 3/4, 5/8, 1/8] (3/4) = (1/2, 1/2)
   \<and> calculate_eer_fp round_double [True, False, False, True] [7/8, 3/4, 5/8, 1/8] = Inr (Some (1/4))
   \<and> equal_error_rate_spec [True, False, False, True] [7/8, 3/4, 5/8, 1/8] = 1/2
   \<and> calculate_eer_fp round_double [True, False, False, True] [7/8, 1/2, 1/2, 1/8] = Inr (Some (1/4))
   \<and> equal_error_rate_spec [True, False, False, True] [7/8, 1/2, 1/2, 1/8] = 3/4"
proof -
  have a: "roc_curve_fp round_double [True, False, False, True] [7/8, 3/4, 5/8, 1/8] =
     Inr ([Some 0, Some 0, Some 1, Some 1], [Some 0, Some (1/2), Some (1/2), Some 1],
          [PosInf, Finite (7/8), Finite (5/8), Finite (1/8)])"
    by (simp add: eer_fp_eval)
  have b: "operating_point [True, False, False, True] [7/8, 3/4, 5/8, 1/8] (3/4) = (1/2, 1/2)"
    by (simp add: operating_point_def Let_def)
  have c: "calculate_eer_fp round_double [True, False, False, True] [7/8, 3/4, 5/8, 1/8]
      = Inr (Some (1/4))"
    by (simp add: eer_fp_eval)
  have d: "equal_error_rate_spec [True, False, False, True] [7/8, 3/4, 5/8, 1/8] = 1/2"
    by (simp add: equal_error_rate_spec_def operating_point_def Let_def)
  have e: "calculate_eer_fp round_double [True, False, False, True] [7/8, 1/2, 1/2, 1/8]
      = Inr (Some (1/4))"
    by (simp add: eer_fp_eval)
  have f: "equal_error_rate_spec [True, False, False, True] [7/8, 1/2, 1/2, 1/8] = 3/4"
    by (simp add: equal_error_rate_spec_def operating_point_def Let_def)
  from a b c d e f show ?thesis by blast
qed

text \<open>
  C2 (amended). For label and score sequences of the same length that contain both
  classes, \<open>calculate_eer\<close> takes the operating points that \<open>roc_curve\<close> returns,
  all of them numbers, selects the first index, in the order returned, at which the gap
  |FNR - FPR| it computes in double precision is smallest, and returns the mean of FPR
  and FNR at that index, computed in double precision, a single real in [0, 1].
\<close>

theorem calculate_eer_first_smallest_gap:
  assumes "mono rnd" and "rnd 0 = 0" and "rnd 1 = 1" and "rnd 2 = 2"
    and "length y_true = length y_pred" and "True \<in> set y_true" and "False \<in> set y_true"
  shows "\<exists>fpr tpr thresholds i e.
           roc_curve_fp rnd y_true y_pred = Inr (map Some fpr, map Some tpr, thresholds)
           \<and> length tpr = length fpr \<and> i < length fpr
           \<and> (\<forall>j < length fpr. \<bar>rnd (rnd (1 - tpr ! i) - fpr ! i)\<bar>
                                  \<le> \<bar>rnd (rnd (1 - tpr ! j) - fpr ! j)\<bar>)
           \<and> (\<forall>j < i. \<bar>rnd (rnd (1 - tpr ! i) - fpr ! i)\<bar>
                         < \<bar>rnd (rnd (1 - tpr ! j) - fpr ! j)\<bar>)
           \<and> calculate_eer_fp rnd y_true y_pred = Inr (Some e)
           \<and> e = rnd (rnd (fpr ! i + rnd (1 - tpr ! i)) / 2) \<and> 0 \<le> e \<and> e \<le> 1"
proof -
  have ne: "y_true \<noteq> []" using assms(6) by auto
  obtain fps1 tps1 thr where
    roc: "roc_curve_fp rnd y_true y_pred = Inr (rates_fp rnd fps1, rates_fp rnd tps1, thr)"
    and ln: "length tps1 = length fps1" and fne: "fps1 \<noteq> []"
    and lf: "last fps1 = negatives y_true" and lt: "last tps1 = positives y_true"
    and bf: "\<forall>x \<in> set fps1. 0 \<le> x \<and> x \<le> negatives y_true"
    and bt: "\<forall>x \<in> set tps1. 0 \<le> x \<and> x \<le> positives y_true"
    using roc_curve_fp_counts [OF assms(5) ne] by blast
  have npos: "0 < negatives y_true" using negatives_ge1 [OF assms(7)] by simp
  have ppos: "0 < positives y_true" using positives_ge1 [OF assms(6)] by simp
  define fpr where "fpr = map (\<lambda>p. rnd (real_of_int p / real_of_int (negatives y_true))) fps1"
  define tpr where "tpr = map (\<lambda>p. rnd (real_of_int p / real_of_int (positives y_true))) tps1"
  define gs where "gs = map (\<lambda>(t, f). \<bar>rnd (rnd (1 - t) - f)\<bar>) (zip tpr fpr)"
  have rf: "rates_fp rnd fps1 = map Some fpr"
    using npos by (simp add: rates_fp_defined lf fpr_def)
  have rt: "rates_fp rnd tps1 = map Some tpr"
    using ppos by (simp add: rates_fp_defined lt tpr_def)
  have roc': "roc_curve_fp rnd y_true y_pred = Inr (map Some fpr, map Some tpr, thr)"
    using roc by (simp only: rf rt)
  have len: "length tpr = length fpr" by (simp add: fpr_def tpr_def ln)
  have lgs: "length gs = length fpr" by (simp add: gs_def len)
  have gne: "gs \<noteq> []" using fne lgs by (auto simp add: fpr_def)
  have fb: "0 \<le> fpr ! j \<and> fpr ! j \<le> 1" if "j < length fpr" for j
  proof -
    have "fps1 ! j \<in> set fps1" using that by (simp add: fpr_def)
    with bf have "0 \<le> fps1 ! j \<and> fps1 ! j \<le> negatives y_true" by blast
    then have "0 \<le> real_of_int (fps1 ! j) / real_of_int (negatives y_true)
        \<and> real_of_int (fps1 ! j) / real_of_int (negatives y_true) \<le> 1"
      using npos by simp
    then have "0 \<le> rnd (real_of_int (fps1 ! j) / real_of_int (negatives y_true))
        \<and> rnd (real_of_int (fps1 ! j) / real_of_int (negatives y_true)) \<le> 1"
      using rounded_unit_interval [OF assms(1) assms(2) assms(3)] by blast
    then show ?thesis using that by (simp add: fpr_def)
  qed
  have tb: "0 \<le> tpr ! j \<and> tpr ! j \<le> 1" if "j < length fpr" for j
  proof -
    have j: "j < length tps1" using that by (simp add: fpr_def ln)
    then have "tps1 ! j \<in> set tps1" by simp
    with bt have "0 \<le> tps1 ! j \<and> tps1 ! j \<le> positives y_true" by blast
    then have "0 \<le> real_of_int (tps1 ! j) / real_of_int (positives y_true)
        \<and> real_of_int (tps1 ! j) / real_of_int (positives y_true) \<le> 1"
      using ppos by simp
    then have "0 \<le> rnd (real_of_int (tps1 ! j) / real_of_int (positives y_true))
        \<and> rnd (real_of_int (tps1 ! j) / real_of_int (positives y_true)) \<le> 1"
      using rounded_unit_interval [OF assms(1) assms(2) assms(3)] by blast
    then show ?thesis using j by (simp add: tpr_def)
  qed
  have gnth: "gs ! j = \<bar>rnd (rnd (1 - tpr ! j) - fpr ! j)\<bar>" if "j < length fpr" for j
    using that len by (simp add: gs_def)
  obtain k where arg: "nanargmin (map Some gs) = Inr k" and klt: "k < length gs"
    and kmin: "\<forall>t < length gs. gs ! k \<le> gs ! t" and kfirst: "\<forall>t < k. gs ! k < gs ! t"
    using nanargmin_first_min [OF gne] by blast
  have k: "k < length fpr" using klt lgs by simp
  have eer: "calculate_eer_fp rnd y_true y_pred
      = Inr (Some (rnd (rnd (fpr ! k + rnd (1 - tpr ! k)) / 2)))"
    unfolding calculate_eer_fp_unfold [OF roc'] gaps_fp_defined [OF len] gs_def [symmetric]
    using k len
    by (simp add: arg py_half_fp_def py_add_fp_def py_sub_fp_def py_half_def py_add_def py_sub_def)
  have m1: "\<forall>j < length fpr. \<bar>rnd (rnd (1 - tpr ! k) - fpr ! k)\<bar>
                                  \<le> \<bar>rnd (rnd (1 - tpr ! j) - fpr ! j)\<bar>"
    using kmin k by (simp add: lgs gnth)
  have m2: "\<forall>j < k. \<bar>rnd (rnd (1 - tpr ! k) - fpr ! k)\<bar> < \<bar>rnd (rnd (1 - tpr ! j) - fpr ! j)\<bar>"
  proof (intro allI impI)
    fix j assume jk: "j < k"
    then have "j < length fpr" using k by simp
    with kfirst jk k show "\<bar>rnd (rnd (1 - tpr ! k) - fpr ! k)\<bar>
        < \<bar>rnd (rnd (1 - tpr ! j) - fpr ! j)\<bar>"
      by (simp add: gnth)
  qed
  have fn: "0 \<le> rnd (1 - tpr ! k) \<and> rnd (1 - tpr ! k) \<le> 1"
    using tb [OF k] rounded_unit_interval [OF assms(1) assms(2) assms(3), of "1 - tpr ! k"]
    by simp
  have s02: "0 \<le> fpr ! k + rnd (1 - tpr ! k) \<and> fpr ! k + rnd (1 - tpr ! k) \<le> 2"
    using fb [OF k] fn by simp
  have r02: "0 \<le> rnd (fpr ! k + rnd (1 - tpr ! k)) \<and> rnd (fpr ! k + rnd (1 - tpr ! k)) \<le> 2"
    using s02 monoD [OF assms(1), of 0 "fpr ! k + rnd (1 - tpr ! k)"]
      monoD [OF assms(1), of "fpr ! k + rnd (1 - tpr ! k)" 2] assms(2) assms(4)
    by simp
  have rng: "0 \<le> rnd (rnd (fpr ! k + rnd (1 - tpr ! k)) / 2)
      \<and> rnd (rnd (fpr ! k + rnd (1 - tpr ! k)) / 2) \<le> 1"
    using r02 rounded_unit_interval [OF assms(1) assms(2) assms(3),
        of "rnd (fpr ! k + rnd (1 - tpr ! k)) / 2"]
    by simp
  from roc' len k m1 m2 eer rng show ?thesis by blast
qed

theorem calculate_eer_first_smallest_gap_witness:
  "mono round_double \<and> round_double 0 = 0 \<and> round_double 1 = 1 \<and> round_double 2 = 2
   \<and> length [True, False, False, False] = length [5/8, 1/8, 5/8, 3/4 :: real]
   \<and> True \<in> set [True, False, False, False] \<and> False \<in> set [True, False, False, False]
   \<and> (\<exists>fpr tpr thresholds i e.
           roc_curve_fp round_double [True, False, False, False] [5/8, 1/8, 5/8, 3/4]
             = Inr (map Some fpr, map Some tpr, thresholds)
           \<and> length tpr = length fpr \<and> i < length fpr
           \<and> (\<forall>j < length fpr. \<bar>round_double (round_double (1 - tpr ! i) - fpr ! i)\<bar>
                                  \<le> \<bar>round_double (round_double (1 - tpr ! j) - fpr ! j)\<bar>)
           \<and> (\<forall>j < i. \<bar>round_double (round_double (1 - tpr ! i) - fpr ! i)\<bar>
                         < \<bar>round_double (round_double (1 - tpr ! j) - fpr ! j)\<bar>)
           \<and> calculate_eer_fp round_double [True, False, False, False] [5/8, 1/8, 5/8, 3/4]
               = Inr (Some e)
           \<and> e = round_double (round_double (fpr ! i + round_double (1 - tpr ! i)) / 2)
           \<and> 0 \<le> e \<and> e \<le> 1)
   \<and> calculate_eer_fp round_double [False, False, True, True] [1/8, 3/8, 5/8, 7/8] = Inr (Some 0)
   \<and> calculate_eer_fp round_double [False, True] [7/8, 1/8] = Inr (Some 1)"
proof -
  have h1: "length [True, False, False, False] = length [5/8, 1/8, 5/8, 3/4 :: real]"
    and h2: "True \<in> set [True, False, False, False]"
    and h3: "False \<in> set [True, False, False, False]"
    by simp_all
  have v: "calculate_eer_fp round_double [False, False, True, True] [1/8, 3/8, 5/8, 7/8]
      = Inr (Some 0)"
    by (simp add: eer_fp_eval)
  have w: "calculate_eer_fp round_double [False, True] [7/8, 1/8] = Inr (Some 1)"
    by (simp add: eer_fp_eval)
  show ?thesis
    using round_double_mono round_double_fix h1 h2 h3 v w
      calculate_eer_first_smallest_gap [OF round_double_mono round_double_fix h1 h2 h3]
    by blast
qed

text \<open>
  Rounding decides between gaps that are equal over the reals: with labels 1, 0, 0, 0 and
  scores 0.625, 0.125, 0.625, 0.75 the gaps at indices 1 and 2 are both 2/3 exactly; in
  double precision \<open>1 - fl(1/3)\<close> is above \<open>fl(2/3)\<close>, index 2 is selected and the
  result is \<open>fl(1/3)\<close>, where exact arithmetic selects index 1 and gives 2/3.
\<close>

lemma rounding_breaks_the_tie:
  "roc_curve_fp round_double [True, False, False, False] [5/8, 1/8, 5/8, 3/4] =
     Inr ([Some 0, Some (6004799503160661 / 18014398509481984),
           Some (6004799503160661 / 9007199254740992), Some 1],
          [Some 0, Some 0, Some 1, Some 1],
          [PosInf, Finite (3/4), Finite (5/8), Finite (1/8)])
   \<and> calculate_eer_fp round_double [True, False, False, False] [5/8, 1/8, 5/8, 3/4]
       = Inr (Some (6004799503160661 / 18014398509481984))
   \<and> calculate_eer [True, False, False, False] [5/8, 1/8, 5/8, 3/4] = Inr (Some (2/3))"
proof -
  have a: "roc_curve_fp round_double [True, False, False, False] [5/8, 1/8, 5/8, 3/4] =
     Inr ([Some 0, Some (6004799503160661 / 18014398509481984),
           Some (6004799503160661 / 9007199254740992), Some 1],
          [Some 0, Some 0, Some 1, Some 1],
          [PosInf, Finite (3/4), Finite (5/8), Finite (1/8)])"
    by (simp add: eer_fp_eval)
  have b: "calculate_eer_fp round_double [True, False, False, False] [5/8, 1/8, 5/8, 3/4]
       = Inr (Some (6004799503160661 / 18014398509481984))"
    by (simp add: eer_fp_eval)
  have c: "calculate_eer [True, False, False, False] [5/8, 1/8, 5/8, 3/4] = Inr (Some (2/3))"
    by (simp add: calculate_eer_def roc_curve_def binary_clf_curve_def stable_cumsum_def
        optimal_idxs_def np_diff_def rates_def nanargmin_def py_sub_def py_abs_def py_add_def
        py_half_def Let_def upt_conv_Cons)
  from a b c show ?thesis by blast
qed

subsection \<open>Facts about order-preserving maps of the scores\<close>

lemma insort_key_strict_mono:
  fixes f :: "real \<Rightarrow> real"
  assumes "strict_mono f"
  shows "insort_key snd (l, f x) (map (\<lambda>(a, b). (a, f b)) zs)
           = map (\<lambda>(a, b). (a, f b)) (insort_key snd (l, x) zs)"
proof (induction zs)
  case Nil
  show ?case by simp
next
  case (Cons z zs)
  obtain a b where z: "z = (a, b)" by (cases z)
  have "f x \<le> f b \<longleftrightarrow> x \<le> b"
    using assms by (rule strict_mono_less_eq)
  with Cons show ?case by (simp add: z)
qed

lemma sort_key_strict_mono:
  fixes f :: "real \<Rightarrow> real"
  assumes "strict_mono f"
  shows "sort_key snd (map (\<lambda>(a, b). (a, f b)) zs) = map (\<lambda>(a, b). (a, f b)) (sort_key snd zs)"
proof (induction zs)
  case Nil
  show ?case by simp
next
  case (Cons z zs)
  obtain a b where z: "z = (a, b)" by (cases z)
  show ?case
    using Cons by (simp add: z insort_key_strict_mono [OF assms])
qed

lemma distinct_value_indices_strict_mono:
  fixes f :: "real \<Rightarrow> real"
  assumes "strict_mono f"
  shows "filter (\<lambda>i. map f ys ! Suc i - map f ys ! i \<noteq> 0) [0 ..< length (map f ys) - 1]
           = filter (\<lambda>i. ys ! Suc i - ys ! i \<noteq> 0) [0 ..< length ys - 1]"
proof -
  have "(map f ys ! Suc i - map f ys ! i \<noteq> 0) = (ys ! Suc i - ys ! i \<noteq> 0)"
    if "i \<in> set [0 ..< length ys - 1]" for i
  proof -
    have "Suc i < length ys" and "i < length ys" using that by auto
    then have "map f ys ! Suc i = f (ys ! Suc i)" and "map f ys ! i = f (ys ! i)"
      by simp_all
    moreover have "f (ys ! Suc i) = f (ys ! i) \<longleftrightarrow> ys ! Suc i = ys ! i"
      using assms by (rule strict_mono_eq)
    ultimately show ?thesis by simp
  qed
  then show ?thesis
    unfolding length_map by (intro filter_cong refl)
qed

lemma binary_clf_curve_strict_mono:
  fixes f :: "real \<Rightarrow> real"
  assumes "strict_mono f"
  shows "binary_clf_curve y_true (map f y_score) =
           (case binary_clf_curve y_true y_score of
              Inl e \<Rightarrow> Inl e
            | Inr (fps, tps, thr) \<Rightarrow> Inr (fps, tps, map f thr))"
proof (cases "length y_true \<noteq> length y_score \<or> y_true = []")
  case True
  then show ?thesis by (auto simp add: binary_clf_curve_def)
next
  case False
  then have len: "length y_true = length y_score" and ne: "y_true \<noteq> []" by simp_all
  define desc where "desc = rev (sort_key snd (zip y_true y_score))"
  define ys where "ys = map snd desc"
  define idxs where
    "idxs = filter (\<lambda>i. ys ! Suc i - ys ! i \<noteq> 0) [0 ..< length ys - 1] @ [length (map fst desc) - 1]"
  define cs where "cs = stable_cumsum (map (\<lambda>t. if t then 1 else 0) (map fst desc))"
  have orig: "binary_clf_curve y_true y_score =
      Inr (map (\<lambda>i. 1 + int i - cs ! i) idxs, map (\<lambda>i. cs ! i) idxs, map (\<lambda>i. ys ! i) idxs)"
    unfolding binary_clf_curve_def Let_def idxs_def cs_def ys_def desc_def
    using len ne by simp
  have zipf: "zip y_true (map f y_score) = map (\<lambda>(a, b). (a, f b)) (zip y_true y_score)"
    by (rule zip_map2)
  have descf: "rev (sort_key snd (zip y_true (map f y_score))) = map (\<lambda>(a, b). (a, f b)) desc"
    by (simp only: zipf sort_key_strict_mono [OF assms] rev_map desc_def)
  have sndf: "map snd (map (\<lambda>(a, b). (a, f b)) desc) = map f ys"
    by (simp add: ys_def case_prod_beta)
  have fstf: "map fst (map (\<lambda>(a, b). (a, f b)) desc) = map fst desc"
    by (simp add: case_prod_beta)
  have idxsf: "filter (\<lambda>i. map f ys ! Suc i - map f ys ! i \<noteq> 0) [0 ..< length (map f ys) - 1]
                 @ [length (map fst desc) - 1] = idxs"
    by (simp only: distinct_value_indices_strict_mono [OF assms] idxs_def)
  have ldesc: "length desc = length y_true"
    using len by (simp add: desc_def)
  have idx_lt: "\<forall>i \<in> set idxs. i < length ys"
    using ne by (auto simp add: idxs_def ys_def ldesc)
  have thrf: "map (\<lambda>i. map f ys ! i) idxs = map f (map (\<lambda>i. ys ! i) idxs)"
    using idx_lt by simp
  have lenf: "length y_true = length (map f y_score)" using len by simp
  have "binary_clf_curve y_true (map f y_score) =
      Inr (map (\<lambda>i. 1 + int i - cs ! i) idxs, map (\<lambda>i. cs ! i) idxs, map (\<lambda>i. map f ys ! i) idxs)"
    unfolding binary_clf_curve_def Let_def descf sndf fstf idxsf cs_def [symmetric]
    using lenf ne by (simp only: simp_thms if_False)
  then show ?thesis
    by (simp add: orig thrf)
qed

lemma roc_curve_strict_mono:
  fixes f :: "real \<Rightarrow> real"
  assumes "strict_mono f"
  shows "(\<forall>e. roc_curve y_true y_score = Inl e \<longrightarrow> roc_curve y_true (map f y_score) = Inl e)
       \<and> (\<forall>fpr tpr th. roc_curve y_true y_score = Inr (fpr, tpr, th) \<longrightarrow>
            (\<exists>th'. roc_curve y_true (map f y_score) = Inr (fpr, tpr, th')))"
  unfolding roc_curve_def binary_clf_curve_strict_mono [OF assms]
  by (auto simp add: Let_def split: sum.splits prod.splits)

text \<open>
  C8. For every strictly increasing function \<open>f\<close> on the reals, applying \<open>f\<close> to
  every score leaves the result of \<open>calculate_eer\<close> unchanged; this holds for every
  input, in particular for inputs that contain both classes.
\<close>

theorem eer_invariant_under_strictly_increasing_map:
  fixes f :: "real \<Rightarrow> real"
  assumes "strict_mono f"
  shows "calculate_eer labels (map f scores) = calculate_eer labels scores"
proof (cases "roc_curve labels scores")
  case (Inl e)
  then have "roc_curve labels (map f scores) = Inl e"
    using roc_curve_strict_mono [OF assms] by blast
  with Inl show ?thesis by (simp add: calculate_eer_def)
next
  case (Inr r)
  obtain fpr tpr th where r: "r = (fpr, tpr, th)" by (cases r)
  with Inr obtain th' where "roc_curve labels (map f scores) = Inr (fpr, tpr, th')"
    using roc_curve_strict_mono [OF assms] by blast
  with Inr r show ?thesis by (simp add: calculate_eer_def)
qed

theorem eer_invariant_under_strictly_increasing_map_witness:
  "strict_mono (\<lambda>x :: real. 2 * x)
   \<and> True \<in> set [False, False, True, True] \<and> False \<in> set [False, False, True, True]
   \<and> calculate_eer [False, False, True, True] (map (\<lambda>x. 2 * x) [1/10, 4/10, 6/10, 9/10])
       = calculate_eer [False, False, True, True] [1/10, 4/10, 6/10, 9/10]"
proof -
  have h: "strict_mono (\<lambda>x :: real. 2 * x)"
    by (simp add: strict_mono_def)
  show ?thesis
    using h eer_invariant_under_strictly_increasing_map [OF h,
        of "[False, False, True, True]" "[1/10, 4/10, 6/10, 9/10]"]
    by simp
qed

end
